theory Spec2Isabelle
  imports Main
begin

section \<open>JavaScript values shared by the components\<close>

text \<open>
  Strings are \<^typ>\<open>string\<close>; the development covers ASCII text, where one
  \<^typ>\<open>char\<close> is one UTF-16 code unit of the JavaScript string.
  Numbers are the integers among the JavaScript numbers.
\<close>

text \<open>
  A handler is an opaque callable. Calling it with a list of arguments either returns
  or throws; \<open>Throws e\<close> carries \<open>String(e)\<close> of the thrown value.
\<close>

datatype json =
    JNull
  | JBool bool
  | JNum int
  | JStr string
  | JArr "json list"
  | JObj "(string \<times> json) list"

datatype outcome = Returns | Throws string

type_synonym handler = "json list \<Rightarrow> outcome"

section \<open>Action Registration Context (LangactContext.tsx)\<close>

text \<open>\<open>interface AiAction { id; description; handler }\<close> of types.ts.\<close>

record AiAction =
  aid :: string
  description :: string
  handler :: handler

text \<open>
  A JavaScript \<open>Map<string, V>\<close>: the entries in insertion order, keys distinct.
  \<open>Map.prototype.set\<close> replaces the value of a present key where it stands and appends
  an absent key; \<open>Map.prototype.delete\<close> removes the entry of the key, if any;
  \<open>Map.prototype.values\<close> lists the values in insertion order.
\<close>

type_synonym 'v jsmap = "(string \<times> 'v) list"

fun map_set :: "string \<Rightarrow> 'v \<Rightarrow> 'v jsmap \<Rightarrow> 'v jsmap" where
  "map_set k v [] = [(k, v)]"
| "map_set k v ((k', v') # m) = (if k' = k then (k, v) # m else (k', v') # map_set k v m)"

fun map_delete :: "string \<Rightarrow> 'v jsmap \<Rightarrow> 'v jsmap" where
  "map_delete k [] = []"
| "map_delete k ((k', v') # m) = (if k' = k then m else (k', v') # map_delete k m)"

fun map_get :: "'v jsmap \<Rightarrow> string \<Rightarrow> 'v option" where
  "map_get [] k = None"
| "map_get ((k', v') # m) k = (if k' = k then Some v' else map_get m k)"

definition map_keys :: "'v jsmap \<Rightarrow> string list" where
  "map_keys m = map fst m"

definition map_values :: "'v jsmap \<Rightarrow> 'v list" where
  "map_values m = map snd m"

text \<open>
  \<open>registerAction\<close>: \<open>setActions(prev => new Map(prev).set(action.id, action))\<close>;
  \<open>unregisterAction\<close>: \<open>setActions(prev => { const n = new Map(prev); n.delete(id); return n })\<close>.
  Both are given as the function from the previous map to the next one.
\<close>

definition registerAction :: "'a AiAction_scheme \<Rightarrow> 'a AiAction_scheme jsmap \<Rightarrow> 'a AiAction_scheme jsmap" where
  "registerAction action prevActions = map_set (aid action) action prevActions"

definition unregisterAction :: "string \<Rightarrow> 'a AiAction_scheme jsmap \<Rightarrow> 'a AiAction_scheme jsmap" where
  "unregisterAction k prevActions = map_delete k prevActions"

section \<open>Raw UI tree (Langact.tsx, type FiberNode)\<close>

text \<open>
  A prop value is told apart by \<open>typeof\<close> the way the code does: a function, a non-null
  object, or anything else (a primitive, \<open>null\<close> and \<open>undefined\<close> included).
  A function value has its \<open>name\<close>, the text \<open>toString()\<close> returns, and what calling it does.
  An object value has the name of its constructor, when it has one, its own enumerable
  entries in the order \<open>Object.keys\<close> lists them, and the text its conversion to a
  string gives. Objects are plain data: their members are data properties with distinct
  ordinary names (none is \<open>__proto__\<close> or \<open>hasOwnProperty\<close>), and reading one has no
  effect.
\<close>

datatype prim = Undefined | Null | Bool bool | Num int | Str string

record funval =
  fname :: string
  fsource :: string
  fcall :: handler

datatype propval =
    PPrim prim
  | PFun funval
  | PObj "string option" "(string \<times> propval) list" string

text \<open>
  \<open>elementType\<close> is a string (a host tag), a function with an optional \<open>displayName\<close> and
  a \<open>name\<close>, a non-null object with optional \<open>render\<close> and \<open>type\<close> members (each with an
  optional \<open>displayName\<close> and \<open>name\<close>), or anything else.
\<close>

type_synonym componentFn = "string option \<times> string option"

datatype elementType =
    ETString string
  | ETFunction "string option" string
  | ETObject "componentFn option" "componentFn option"
  | ETOther

text \<open>
  The fiber node: each prop source is an object or absent, \<open>child\<close> and \<open>sibling\<close> are a
  node or null. The tree is finite and acyclic.
\<close>

datatype fiber = Fiber
  (elementType: elementType)
  (props: "(string \<times> propval) list option")
  (memoizedProps: "(string \<times> propval) list option")
  (pendingProps: "(string \<times> propval) list option")
  (child: "fiber option")
  (sibling: "fiber option")

section \<open>Tree Walker (Langact.tsx, fiberToComponentTree)\<close>



text \<open>Truthiness of an optional string: present and not empty.\<close>

definition truthyStr :: "string option \<Rightarrow> bool" where
  "truthyStr s = (case s of None \<Rightarrow> False | Some t \<Rightarrow> t \<noteq> [])"


text \<open>\<open>fiberNode.props || fiberNode.memoizedProps || fiberNode.pendingProps || {}\<close>:
  an object is truthy also when it has no entry.\<close>

definition propsSource :: "fiber \<Rightarrow> (string \<times> propval) list" where
  "propsSource n =
     (case props n of Some p \<Rightarrow> p
      | None \<Rightarrow> (case memoizedProps n of Some p \<Rightarrow> p
        | None \<Rightarrow> (case pendingProps n of Some p \<Rightarrow> p | None \<Rightarrow> [])))"





section \<open>Text helpers\<close>

text \<open>The decimal text of a natural number and of an integer, as a template literal gives it.\<close>

definition digits :: string where
  "digits = ''0123456789''"

fun showNat :: "nat \<Rightarrow> string" where
  "showNat n = (if n < 10 then [digits ! n] else showNat (n div 10) @ [digits ! (n mod 10)])"

declare showNat.simps [simp del]

definition showInt :: "int \<Rightarrow> string" where
  "showInt i = (if i < 0 then ''-'' @ showNat (nat (- i)) else showNat (nat i))"

text \<open>\<open>Array.prototype.join\<close> on an array of strings.\<close>

fun join :: "string \<Rightarrow> string list \<Rightarrow> string" where
  "join sep [] = []"
| "join sep [x] = x"
| "join sep (x # y # ys) = x @ sep @ join sep (y # ys)"

definition startsWith :: "string \<Rightarrow> string \<Rightarrow> bool" where
  "startsWith s pre = (take (length pre) s = pre)"

section \<open>Action Extractor (Langact.tsx, createActionRegistry)\<close>

record ActionRegistryEntry =
  e_id :: string
  e_component :: string
  e_event :: string
  e_path :: string
  e_semanticId :: string
  e_identifyingProps :: "propval jsmap"
  e_description :: string
  execute :: handler
  functionName :: string
  toString :: string

text \<open>The three variables the traversal closes over.\<close>

record extractor =
  actionRegistry :: "ActionRegistryEntry jsmap"
  actionId :: nat
  componentCounts :: "nat jsmap"

text \<open>The helper of the same name inside \<open>createActionRegistry\<close>: it has no object case.\<close>

fun getDisplayName_registry :: "elementType \<Rightarrow> string" where
  "getDisplayName_registry (ETString s) = s"
| "getDisplayName_registry (ETFunction d n) =
     (if truthyStr d then the d else if n \<noteq> [] then n else ''Component'')"
| "getDisplayName_registry (ETObject r t) = ''Unknown''"
| "getDisplayName_registry ETOther = ''Unknown''"

text \<open>
  \<open>componentKey = path.join(">") + ">" + componentName\<close>. The key always holds a
  \<open>>\<close>, so it never names a member that the object \<open>componentCounts\<close> inherits.
\<close>

definition componentKey :: "string list \<Rightarrow> string \<Rightarrow> string" where
  "componentKey path componentName = join ''>'' path @ ''>'' @ componentName"

text \<open>\<open>componentCounts[componentKey] || 0\<close>.\<close>

definition countOf :: "nat jsmap \<Rightarrow> string \<Rightarrow> nat" where
  "countOf counts k = (case map_get counts k of Some c \<Rightarrow> c | None \<Rightarrow> 0)"

definition instanceIdentifier :: "string \<Rightarrow> nat \<Rightarrow> string" where
  "instanceIdentifier componentName instanceNumber =
     (if instanceNumber > 0 then componentName @ ''['' @ showNat instanceNumber @ '']''
      else componentName)"

text \<open>\<open>x !== undefined\<close> for the value of a member that may be missing.\<close>

fun defined :: "propval option \<Rightarrow> bool" where
  "defined None = False"
| "defined (Some (PPrim Undefined)) = False"
| "defined (Some v) = True"

text \<open>Truthiness of the value of a member that may be missing.\<close>

fun truthy :: "propval option \<Rightarrow> bool" where
  "truthy None = False"
| "truthy (Some (PPrim Undefined)) = False"
| "truthy (Some (PPrim Null)) = False"
| "truthy (Some (PPrim (Bool b))) = b"
| "truthy (Some (PPrim (Num i))) = (i \<noteq> 0)"
| "truthy (Some (PPrim (Str s))) = (s \<noteq> [])"
| "truthy (Some (PFun f)) = True"
| "truthy (Some (PObj c es str)) = True"

text \<open>The text a template literal \<open>${v}\<close> gives for a value.\<close>

fun templateStr :: "propval \<Rightarrow> string" where
  "templateStr (PPrim Undefined) = ''undefined''"
| "templateStr (PPrim Null) = ''null''"
| "templateStr (PPrim (Bool b)) = (if b then ''true'' else ''false'')"
| "templateStr (PPrim (Num i)) = showInt i"
| "templateStr (PPrim (Str s)) = s"
| "templateStr (PFun f) = fsource f"
| "templateStr (PObj c es str) = str"

text \<open>
  \<open>["id", "num", "index", "value", "name", "className"].forEach(prop => { if
  (propsSource[prop] !== undefined) identifyingProps[prop] = propsSource[prop] })\<close>.
\<close>

definition identifyingNames :: "string list" where
  "identifyingNames = [''id'', ''num'', ''index'', ''value'', ''name'', ''className'']"

fun captureProps :: "string list \<Rightarrow> propval jsmap \<Rightarrow> propval jsmap \<Rightarrow> propval jsmap" where
  "captureProps [] ps acc = acc"
| "captureProps (prop # rest) ps acc =
     captureProps rest ps
       (if defined (map_get ps prop) then map_set prop (the (map_get ps prop)) acc else acc)"

definition identifyingPropsOf :: "propval jsmap \<Rightarrow> propval jsmap" where
  "identifyingPropsOf ps = captureProps identifyingNames ps []"

text \<open>The \<open>if / else if\<close> chain that sets \<open>semanticId\<close>.\<close>

definition semanticIdOf :: "propval jsmap \<Rightarrow> nat \<Rightarrow> string" where
  "semanticIdOf identifyingProps instanceNumber =
     (if defined (map_get identifyingProps ''num'') then
        ''[num='' @ templateStr (the (map_get identifyingProps ''num'')) @ '']''
      else if defined (map_get identifyingProps ''index'') then
        ''[index='' @ templateStr (the (map_get identifyingProps ''index'')) @ '']''
      else if truthy (map_get identifyingProps ''id'') then
        ''[id='' @ templateStr (the (map_get identifyingProps ''id'')) @ '']''
      else if truthy (map_get identifyingProps ''key'') then
        ''[key='' @ templateStr (the (map_get identifyingProps ''key'')) @ '']''
      else if instanceNumber > 0 then
        ''[instance='' @ showNat instanceNumber @ '']''
      else [])"

text \<open>One turn of \<open>Object.keys(propsSource).forEach\<close>: a new action for an \<open>on\<close>-prefixed
  function prop, nothing otherwise.\<close>

definition newAction ::
  "string \<Rightarrow> string list \<Rightarrow> string \<Rightarrow> propval jsmap \<Rightarrow> string \<Rightarrow> funval \<Rightarrow> string
   \<Rightarrow> ActionRegistryEntry" where
  "newAction componentName currentPath semanticId identifyingProps propKey propValue functionId =
     \<lparr>e_id = functionId,
      e_component = componentName,
      e_event = propKey,
      e_path = join '' > '' currentPath,
      e_semanticId = semanticId,
      e_identifyingProps = identifyingProps,
      e_description = propKey @ '' handler on '' @ componentName
        @ (if semanticId \<noteq> [] then '' '' @ semanticId else [])
        @ '' at '' @ join '' > '' currentPath,
      execute = fcall propValue,
      functionName = (if fname propValue \<noteq> [] then fname propValue else ''anonymous''),
      toString = fsource propValue\<rparr>"

definition addAction ::
  "string \<Rightarrow> string list \<Rightarrow> string \<Rightarrow> propval jsmap \<Rightarrow> string \<Rightarrow> funval \<Rightarrow> extractor \<Rightarrow> extractor" where
  "addAction componentName currentPath semanticId identifyingProps propKey propValue st =
     (let functionId = ''action_'' @ showNat (actionId st)
      in st\<lparr>actionId := actionId st + 1,
            actionRegistry := map_set functionId
              (newAction componentName currentPath semanticId identifyingProps propKey propValue
                 functionId)
              (actionRegistry st)\<rparr>)"

fun extractHandlers ::
  "string list \<Rightarrow> propval jsmap \<Rightarrow> string \<Rightarrow> string list \<Rightarrow> string \<Rightarrow> propval jsmap
   \<Rightarrow> extractor \<Rightarrow> extractor" where
  "extractHandlers [] ps componentName currentPath semanticId identifyingProps st = st"
| "extractHandlers (propKey # rest) ps componentName currentPath semanticId identifyingProps st =
     extractHandlers rest ps componentName currentPath semanticId identifyingProps
       (case map_get ps propKey of
          Some (PFun propValue) \<Rightarrow>
            (if startsWith propKey ''on''
             then addAction componentName currentPath semanticId identifyingProps propKey propValue st
             else st)
        | _ \<Rightarrow> st)"

text \<open>
  The part of \<open>traverseAndExtractActions\<close> before its loop over the children, for a node
  that is not null: it counts the occurrence, labels the node and adds the node's actions.
  It returns the path of the node and the updated variables.
\<close>

definition visitNode :: "fiber \<Rightarrow> string list \<Rightarrow> extractor \<Rightarrow> string list \<times> extractor" where
  "visitNode node path st =
     (let componentName = getDisplayName_registry (elementType node);
          key = componentKey path componentName;
          count = countOf (componentCounts st) key + 1;
          st1 = st\<lparr>componentCounts := map_set key count (componentCounts st)\<rparr>;
          instanceNumber = count - 1;
          currentPath = path @ [instanceIdentifier componentName instanceNumber];
          ps = propsSource node;
          identifyingProps = identifyingPropsOf ps;
          semanticId = semanticIdOf identifyingProps instanceNumber
      in (currentPath,
          extractHandlers (map fst ps) ps componentName currentPath semanticId identifyingProps st1))"

fun traverseAndExtractActions :: "fiber option \<Rightarrow> string list \<Rightarrow> extractor \<Rightarrow> extractor"
  and whileChildActions :: "fiber option \<Rightarrow> string list \<Rightarrow> extractor \<Rightarrow> extractor" where
  "traverseAndExtractActions None path st = st"
| "traverseAndExtractActions (Some (Fiber et p mp pp ch sib)) path st =
     (case visitNode (Fiber et p mp pp ch sib) path st of
        (currentPath, st') \<Rightarrow> whileChildActions ch currentPath st')"
| "whileChildActions None currentPath st = st"
| "whileChildActions (Some (Fiber et p mp pp ch sib)) currentPath st =
     whileChildActions sib currentPath
       (traverseAndExtractActions (Some (Fiber et p mp pp ch sib)) currentPath st)"

definition createActionRegistry :: "fiber option \<Rightarrow> ActionRegistryEntry jsmap" where
  "createActionRegistry fiberNode =
     actionRegistry (traverseAndExtractActions fiberNode []
       \<lparr>actionRegistry = [], actionId = 0, componentCounts = []\<rparr>)"

text \<open>The id the k-th action of a pass is to have, and the registry that holds exactly
  the ids of the actions numbered below the counter, in that order, each entry under its own id.\<close>

definition actionName :: "nat \<Rightarrow> string" where
  "actionName k = ''action_'' @ showNat k"

definition dense :: "extractor \<Rightarrow> bool" where
  "dense st = (map_keys (actionRegistry st) = map actionName [0..<actionId st]
     \<and> map (e_id \<circ> snd) (actionRegistry st) = map actionName [0..<actionId st])"

text \<open>
  The actions a traversal is to discover, told from the tree alone. A node declares the
  props, in the order of its keys, that are \<open>on\<close>-prefixed and hold a function; a traversal
  from a node discovers the node's own handlers first and then those of its children, child
  by child along the sibling chain. Each is given with the component name, the event and the
  function. \<open>numbered\<close> is what the k-th of them, counted from a start, is to be registered
  as: the key and the id \<open>action_k\<close>, the component, the event, the function to call and
  its source text.
\<close>

fun handlersIn :: "string list \<Rightarrow> propval jsmap \<Rightarrow> (string \<times> funval) list" where
  "handlersIn [] ps = []"
| "handlersIn (propKey # rest) ps =
     (case map_get ps propKey of
        Some (PFun propValue) \<Rightarrow>
          (if startsWith propKey ''on'' then (propKey, propValue) # handlersIn rest ps
           else handlersIn rest ps)
      | _ \<Rightarrow> handlersIn rest ps)"

fun discovered :: "fiber option \<Rightarrow> (string \<times> string \<times> funval) list"
  and discoveredChildren :: "fiber option \<Rightarrow> (string \<times> string \<times> funval) list" where
  "discovered None = []"
| "discovered (Some (Fiber et p mp pp ch sib)) =
     map (\<lambda>(propKey, propValue). (getDisplayName_registry et, propKey, propValue))
       (handlersIn (map fst (propsSource (Fiber et p mp pp ch sib)))
          (propsSource (Fiber et p mp pp ch sib)))
     @ discoveredChildren ch"
| "discoveredChildren None = []"
| "discoveredChildren (Some (Fiber et p mp pp ch sib)) =
     discovered (Some (Fiber et p mp pp ch sib)) @ discoveredChildren sib"

definition numbered ::
  "nat \<times> string \<times> string \<times> funval
   \<Rightarrow> string \<times> string \<times> string \<times> string \<times> handler \<times> string" where
  "numbered = (\<lambda>(k, componentName, propKey, propValue).
     (actionName k, actionName k, componentName, propKey, fcall propValue, fsource propValue))"

definition entryFacts ::
  "string \<times> ActionRegistryEntry
   \<Rightarrow> string \<times> string \<times> string \<times> string \<times> handler \<times> string" where
  "entryFacts = (\<lambda>(key, e). (key, e_id e, e_component e, e_event e, execute e, toString e))"

text \<open>A state of the traversal that continues another: it is dense, and its registry is the
  other's followed by the given actions, numbered from the other's counter.\<close>

definition extends :: "extractor \<Rightarrow> extractor \<Rightarrow> (string \<times> string \<times> funval) list \<Rightarrow> bool" where
  "extends st st' ds =
     (dense st' \<and> actionId st' = actionId st + length ds
      \<and> map entryFacts (actionRegistry st')
          = map entryFacts (actionRegistry st) @ map numbered (enumerate (actionId st) ds))"

section \<open>More text helpers\<close>

text \<open>
  The ASCII characters the class \<open>\s\<close> of a regular expression and \<open>String.prototype.trim\<close>
  take as white space: space, tab, line feed, vertical tab, form feed, carriage return.
\<close>

definition isSpace :: "char \<Rightarrow> bool" where
  "isSpace c = (c \<in> set [CHR 0x20, CHR 0x09, CHR 0x0A, CHR 0x0B, CHR 0x0C, CHR 0x0D])"

definition trim :: "string \<Rightarrow> string" where
  "trim s = rev (dropWhile isSpace (rev (dropWhile isSpace s)))"

definition toLowerChar :: "char \<Rightarrow> char" where
  "toLowerChar c =
     (case map_of (zip ''ABCDEFGHIJKLMNOPQRSTUVWXYZ'' ''abcdefghijklmnopqrstuvwxyz'') c of
        Some l \<Rightarrow> l | None \<Rightarrow> c)"

definition toLowerCase :: "string \<Rightarrow> string" where
  "toLowerCase s = map toLowerChar s"

text \<open>
  \<open>s.split(/\s+/)\<close>: the pieces of \<open>s\<close> between its maximal runs of white space. A run
  at the start or at the end of \<open>s\<close> leaves an empty piece there. The flag tells that the
  character before was white space, so the run has been cut already.
\<close>

fun splitWs :: "bool \<Rightarrow> string \<Rightarrow> string list" where
  "splitWs inSep [] = [[]]"
| "splitWs inSep (c # cs) =
     (if isSpace c then (if inSep then splitWs True cs else [] # splitWs True cs)
      else (case splitWs False cs of t # ts \<Rightarrow> (c # t) # ts | [] \<Rightarrow> [[c]]))"

definition split_whitespace :: "string \<Rightarrow> string list" where
  "split_whitespace s = splitWs False s"

text \<open>\<open>s.includes(w)\<close>: \<open>w\<close> occurs in \<open>s\<close> as a substring.\<close>

fun includes_str :: "string \<Rightarrow> string \<Rightarrow> bool" where
  "includes_str [] w = (w = [])"
| "includes_str (c # cs) w = (startsWith (c # cs) w \<or> includes_str cs w)"

text \<open>A text between single quotes, and the double quote character.\<close>

definition squote :: "string \<Rightarrow> string" where
  "squote s = CHR 0x27 # s @ [CHR 0x27]"

definition dquote :: "string \<Rightarrow> string" where
  "dquote s = CHR 0x22 # s @ [CHR 0x22]"

section \<open>Command Resolver, local scoring (components/CommandBar.tsx)\<close>

text \<open>The state of the command bar, and what one run of an operation leaves: the state,
  the handlers it invoked (the id of the action and the arguments), and the exception that
  left the operation uncaught, if one did.\<close>

record bar =
  query :: string
  status :: string

record 's run =
  state :: 's
  calls :: "(string \<times> json list) list"
  uncaught :: "string option"

text \<open>The inner loop \<open>for (const word of commandWords)\<close>.\<close>

fun wordLoop :: "string list \<Rightarrow> string \<Rightarrow> nat \<Rightarrow> nat" where
  "wordLoop [] descr currentScore = currentScore"
| "wordLoop (word # rest) descr currentScore =
     wordLoop rest descr
       (if includes_str descr word then currentScore + 1 else currentScore)"

text \<open>The outer loop \<open>for (const action of actions.values())\<close> with \<open>bestAction\<close> and
  \<open>maxScore\<close>.\<close>

fun actionLoop ::
  "string list \<Rightarrow> AiAction list \<Rightarrow> AiAction option \<times> nat \<Rightarrow> AiAction option \<times> nat" where
  "actionLoop commandWords [] (bestAction, maxScore) = (bestAction, maxScore)"
| "actionLoop commandWords (action # rest) (bestAction, maxScore) =
     (let currentScore = wordLoop commandWords (toLowerCase (description action)) 0
      in if currentScore > maxScore then actionLoop commandWords rest (Some action, currentScore)
         else actionLoop commandWords rest (bestAction, maxScore))"

definition executing_text :: "string \<Rightarrow> string" where
  "executing_text d = ''Executing: '' @ dquote d"

definition sorry_text :: string where
  "sorry_text = ''Sorry, I don't know how to do that.''"

text \<open>
  \<open>findAndExecuteAction\<close>, with the context present. A handler that throws leaves the
  function before \<open>setQuery("")\<close>; the status was set before the call.
\<close>

definition findAndExecuteAction :: "string \<Rightarrow> AiAction jsmap \<Rightarrow> bar \<Rightarrow> bar run" where
  "findAndExecuteAction command actions st =
     (if trim command = [] then \<lparr>state = st, calls = [], uncaught = None\<rparr>
      else
        let commandWords = split_whitespace (toLowerCase command);
            (bestAction, maxScore) = actionLoop commandWords (map_values actions) (None, 0)
        in case bestAction of
             Some a \<Rightarrow>
               (case handler a [] of
                  Returns \<Rightarrow>
                    \<lparr>state = st\<lparr>status := executing_text (description a), query := []\<rparr>,
                     calls = [(aid a, [])], uncaught = None\<rparr>
                | Throws e \<Rightarrow>
                    \<lparr>state = st\<lparr>status := executing_text (description a)\<rparr>,
                     calls = [(aid a, [])], uncaught = Some e\<rparr>)
           | None \<Rightarrow> \<lparr>state = st\<lparr>status := sorry_text\<rparr>, calls = [], uncaught = None\<rparr>)"

text \<open>\<open>handleSubmit\<close> runs it on the text of the query field.\<close>

definition handleSubmit :: "AiAction jsmap \<Rightarrow> bar \<Rightarrow> bar run" where
  "handleSubmit actions st = findAndExecuteAction (query st) actions st"

text \<open>The score of an action for a query: how many of the query's tokens, repeats counted,
  occur in the lower-cased description.\<close>

definition score :: "string \<Rightarrow> AiAction \<Rightarrow> nat" where
  "score command a =
     length (filter (includes_str (toLowerCase (description a)))
       (split_whitespace (toLowerCase command)))"

text \<open>
  What the scoring loop is to establish: with no best action every action scores zero; a
  best action stands at an index whose score is positive, is the greatest of all, and is
  greater than every score before it.
\<close>

definition firstMax :: "(AiAction \<Rightarrow> nat) \<Rightarrow> AiAction list \<Rightarrow> AiAction option \<Rightarrow> bool" where
  "firstMax sc acts b =
     (case b of
        None \<Rightarrow> (\<forall>j<length acts. sc (acts ! j) = 0)
      | Some a \<Rightarrow> (\<exists>i<length acts. a = acts ! i \<and> 0 < sc a
           \<and> (\<forall>j<length acts. sc (acts ! j) \<le> sc a) \<and> (\<forall>j<i. sc (acts ! j) < sc a)))"

section \<open>Command Resolver, remote strategy (the CommandBar with sendQueryToLLM)\<close>

record remoteBar = bar +
  loading :: bool

text \<open>
  \<open>JSON.parse\<close> and \<open>JSON.stringify\<close> belong to the platform and are taken as given:
  \<open>parse\<close> returns nothing where \<open>JSON.parse\<close> throws a SyntaxError.
\<close>

record jsonlib =
  parse :: "string \<Rightarrow> json option"
  stringify :: "json \<Rightarrow> string"

text \<open>
  The text \<open>String(e)\<close> gives for the TypeErrors the run-time raises. The wording is V8's;
  nothing below depends on it.
\<close>

definition nullMemberError :: "string \<Rightarrow> string" where
  "nullMemberError k =
     ''TypeError: Cannot read properties of null (reading '' @ squote k @ '')''"

definition trimNotAFunction :: string where
  "trimNotAFunction = ''TypeError: data.choices[0].message.content.trim is not a function''"

definition executeNotAFunction :: string where
  "executeNotAFunction = ''TypeError: context.actionRegistry[actionId].execute is not a function''"

definition notIterable :: string where
  "notIterable = ''TypeError: Spread syntax requires ...iterable[Symbol.iterator] to be a function''"

text \<open>
  Reading a member \<open>x.k\<close> of a parsed JSON value, for the names the resolver reads
  (\<open>choices\<close>, \<open>message\<close>, \<open>content\<close>, \<open>actionId\<close>, \<open>parameters\<close>; no prototype has
  a member of such a name): a TypeError on \<open>null\<close>, the own member of an object,
  \<open>undefined\<close> (here \<open>None\<close>) on anything else. \<open>x[0]\<close> is the first element of an
  array, the first character of a string, the member \<open>0\<close> of an object.
\<close>

fun member :: "json \<Rightarrow> string \<Rightarrow> string + json option" where
  "member JNull k = Inl (nullMemberError k)"
| "member (JObj es) k = Inr (map_get es k)"
| "member (JBool b) k = Inr None"
| "member (JNum i) k = Inr None"
| "member (JStr s) k = Inr None"
| "member (JArr xs) k = Inr None"

fun index0 :: "json \<Rightarrow> string + json option" where
  "index0 JNull = Inl (nullMemberError ''0'')"
| "index0 (JArr xs) = Inr (case xs of [] \<Rightarrow> None | x # rest \<Rightarrow> Some x)"
| "index0 (JStr s) = Inr (case s of [] \<Rightarrow> None | c # rest \<Rightarrow> Some (JStr [c]))"
| "index0 (JObj es) = Inr (map_get es ''0'')"
| "index0 (JBool b) = Inr None"
| "index0 (JNum i) = Inr None"

fun truthyJ :: "json option \<Rightarrow> bool" where
  "truthyJ None = False"
| "truthyJ (Some JNull) = False"
| "truthyJ (Some (JBool b)) = b"
| "truthyJ (Some (JNum i)) = (i \<noteq> 0)"
| "truthyJ (Some (JStr s)) = (s \<noteq> [])"
| "truthyJ (Some (JArr xs)) = True"
| "truthyJ (Some (JObj es)) = True"

text \<open>
  The guard \<open>data.choices && data.choices[0] && data.choices[0].message &&
  data.choices[0].message.content\<close>: the content when every step is truthy, nothing when
  one is falsy, the TypeError when a step throws.
\<close>

definition firstChoiceContent :: "json \<Rightarrow> string + json option" where
  "firstChoiceContent data =
     (case member data ''choices'' of
        Inl e \<Rightarrow> Inl e
      | Inr choices \<Rightarrow>
          if \<not> truthyJ choices then Inr None
          else (case index0 (the choices) of
            Inl e \<Rightarrow> Inl e
          | Inr choice \<Rightarrow>
              if \<not> truthyJ choice then Inr None
              else (case member (the choice) ''message'' of
                Inl e \<Rightarrow> Inl e
              | Inr message \<Rightarrow>
                  if \<not> truthyJ message then Inr None
                  else (case member (the message) ''content'' of
                    Inl e \<Rightarrow> Inl e
                  | Inr content \<Rightarrow> if \<not> truthyJ content then Inr None else Inr content))))"

text \<open>The fallback of the inner \<open>catch\<close>: \<open>content.trim().replace(/\"/g, "")\<close>.\<close>

definition stripQuotes :: "string \<Rightarrow> string" where
  "stripQuotes s = filter (\<lambda>c. c \<noteq> CHR 0x22) (trim s)"

text \<open>
  From \<open>let actionId = ""\<close> to just before \<open>setQuery("")\<close>: the pair of \<open>actionId\<close> and
  \<open>parameters\<close>, or the exception that leaves for the outer \<open>catch\<close>. Inside the inner
  \<open>try\<close>, \<open>trim\<close> is missing on a content that is no string, \<open>JSON.parse\<close> may throw, and
  reading \<open>actionId\<close> throws when the parsed value is \<open>null\<close>; each lands in the inner
  \<open>catch\<close>, whose own \<open>content.trim()\<close> throws again when the content is no string.
\<close>

definition extractAction :: "jsonlib \<Rightarrow> json \<Rightarrow> string + json \<times> json" where
  "extractAction lib data =
     (case firstChoiceContent data of
        Inl e \<Rightarrow> Inl e
      | Inr None \<Rightarrow> Inr (JStr [], JArr [])
      | Inr (Some (JStr s)) \<Rightarrow>
          (case parse lib (trim s) of
             None \<Rightarrow> Inr (JStr (stripQuotes s), JArr [])
           | Some llmResponse \<Rightarrow>
               (case member llmResponse ''actionId'' of
                  Inl e \<Rightarrow> Inr (JStr (stripQuotes s), JArr [])
                | Inr a \<Rightarrow>
                    (case member llmResponse ''parameters'' of
                       Inl e \<Rightarrow> Inr (JStr (stripQuotes s), JArr [])
                     | Inr p \<Rightarrow> Inr (if truthyJ a then the a else JStr [],
                                      if truthyJ p then the p else JArr []))))
      | Inr (Some content) \<Rightarrow> Inl trimNotAFunction)"

text \<open>The text of a JSON value as a template literal and a property key give it.\<close>

fun jsonToString :: "json \<Rightarrow> string" where
  "jsonToString JNull = ''null''"
| "jsonToString (JBool b) = (if b then ''true'' else ''false'')"
| "jsonToString (JNum i) = showInt i"
| "jsonToString (JStr s) = s"
| "jsonToString (JArr xs) = join '','' (map (\<lambda>x. if x = JNull then [] else jsonToString x) xs)"
| "jsonToString (JObj es) = ''[object Object]''"

text \<open>
  \<open>registry[key]\<close> on a plain object: an own member, else a member inherited from
  \<open>Object.prototype\<close> (each of them truthy, none with a callable \<open>execute\<close>), else
  \<open>undefined\<close>.
\<close>

definition objectPrototypeMembers :: "string list" where
  "objectPrototypeMembers =
     [''constructor'', ''__defineGetter__'', ''__defineSetter__'', ''hasOwnProperty'',
      ''__lookupGetter__'', ''__lookupSetter__'', ''isPrototypeOf'', ''propertyIsEnumerable'',
      ''toString'', ''valueOf'', ''__proto__'', ''toLocaleString'']"

datatype 'a lookup = Own 'a | Inherited | Missing

definition objectGet :: "'a jsmap \<Rightarrow> string \<Rightarrow> 'a lookup" where
  "objectGet obj k =
     (case map_get obj k of
        Some v \<Rightarrow> Own v
      | None \<Rightarrow> if k \<in> set objectPrototypeMembers then Inherited else Missing)"

text \<open>The arguments \<open>...parameters\<close> spreads: the elements of an array, the characters of
  a string, a TypeError for a value that cannot be iterated.\<close>

fun spreadArgs :: "json \<Rightarrow> string + json list" where
  "spreadArgs (JArr xs) = Inr xs"
| "spreadArgs (JStr s) = Inr (map (\<lambda>c. JStr [c]) s)"
| "spreadArgs v = Inl notIterable"

text \<open>The context the bar reads; its \<open>semanticStructure\<close> and \<open>llmActionMap\<close> only go
  into the request.\<close>

record LangactActionContext =
  ctx_actionRegistry :: "ActionRegistryEntry jsmap"

text \<open>What \<open>fetch\<close> and \<open>response.json()\<close> come back with.\<close>

datatype body = BodyRejected string | Body json

datatype fetchResult = FetchRejected string | Response bool string body

definition executingAction_text :: "jsonlib \<Rightarrow> json \<Rightarrow> json \<Rightarrow> string" where
  "executingAction_text lib actionId' parameters =
     ''Executing action: '' @ jsonToString actionId' @ '' with parameters: ''
       @ stringify lib parameters"

definition noSuitable_text :: string where
  "noSuitable_text = ''No suitable action found for your request.''"

definition invalidId_text :: string where
  "invalidId_text = ''LLM did not return a valid action id.''"

text \<open>From \<open>setQuery("")\<close> to the end of \<open>sendQueryToLLM\<close>.\<close>

definition resolveAction ::
  "jsonlib \<Rightarrow> LangactActionContext \<Rightarrow> json \<Rightarrow> json \<Rightarrow> remoteBar \<Rightarrow> remoteBar run" where
  "resolveAction lib context actionId' parameters st0 =
     (let st = st0\<lparr>query := []\<rparr>;
          found = objectGet (ctx_actionRegistry context) (jsonToString actionId')
      in if truthyJ (Some actionId') \<and> actionId' \<noteq> JStr ''none'' \<and> found \<noteq> Missing then
           (let st' = st\<lparr>status := executingAction_text lib actionId' parameters\<rparr>
            in case spreadArgs parameters of
                 Inl e \<Rightarrow>
                   \<lparr>state = st'\<lparr>status := ''Action execution error: '' @ e, loading := False\<rparr>,
                    calls = [], uncaught = None\<rparr>
               | Inr args \<Rightarrow>
                   (case found of
                      Own entry \<Rightarrow>
                        (case execute entry args of
                           Returns \<Rightarrow>
                             \<lparr>state = st'\<lparr>loading := False\<rparr>,
                              calls = [(jsonToString actionId', args)], uncaught = None\<rparr>
                         | Throws e \<Rightarrow>
                             \<lparr>state = st'\<lparr>status := ''Action execution error: '' @ e,
                                           loading := False\<rparr>,
                              calls = [(jsonToString actionId', args)], uncaught = None\<rparr>)
                    | other \<Rightarrow>
                        \<lparr>state = st'\<lparr>status := ''Action execution error: '' @ executeNotAFunction,
                                      loading := False\<rparr>,
                         calls = [], uncaught = None\<rparr>))
         else if actionId' = JStr ''none'' then
           \<lparr>state = st\<lparr>status := noSuitable_text, loading := False\<rparr>,
            calls = [], uncaught = None\<rparr>
         else
           \<lparr>state = st\<lparr>status := invalidId_text, loading := False\<rparr>,
            calls = [], uncaught = None\<rparr>)"

text \<open>\<open>sendQueryToLLM\<close>, given what the request came back with.\<close>

definition sendQueryToLLM ::
  "jsonlib \<Rightarrow> string \<Rightarrow> LangactActionContext option \<Rightarrow> fetchResult \<Rightarrow> remoteBar
   \<Rightarrow> remoteBar run" where
  "sendQueryToLLM lib q context response st0 =
     (if trim q = [] \<or> context = None then \<lparr>state = st0, calls = [], uncaught = None\<rparr>
      else
        let st = st0\<lparr>loading := True, status := ''Thinking...''\<rparr>
        in case response of
             FetchRejected err \<Rightarrow>
               \<lparr>state = st\<lparr>status := ''Error: '' @ err, loading := False\<rparr>,
                calls = [], uncaught = None\<rparr>
           | Response ok statusText b \<Rightarrow>
               if \<not> ok then
                 \<lparr>state = st\<lparr>status := ''LLM API error: '' @ statusText, loading := False\<rparr>,
                  calls = [], uncaught = None\<rparr>
               else (case b of
                  BodyRejected err \<Rightarrow>
                    \<lparr>state = st\<lparr>status := ''Error: '' @ err, loading := False\<rparr>,
                     calls = [], uncaught = None\<rparr>
                | Body data \<Rightarrow>
                    (case extractAction lib data of
                       Inl err \<Rightarrow>
                         \<lparr>state = st\<lparr>status := ''Error: '' @ err, loading := False\<rparr>,
                          calls = [], uncaught = None\<rparr>
                     | Inr (actionId', parameters) \<Rightarrow>
                         resolveAction lib (the context) actionId' parameters st)))"

section \<open>Reindexing Scheduler (Langact.tsx, debouncedUpdate and the mutation observer)\<close>

text \<open>
  Time is counted in milliseconds. The timers of the platform are the list of pending
  timers, each a handle and the time it is due, and the next handle to give out; handles
  are positive and never given twice. \<open>setTimeout\<close> adds a timer due after the delay and
  returns its handle; \<open>clearTimeout\<close> drops the timer of a handle, if it is pending. The
  component adds the ref \<open>updateTimeoutRef\<close>; \<open>passes\<close> lists the times at which a timer
  ran \<open>updateActionMaps\<close>.
\<close>

record scheduler =
  updateTimeoutRef :: "nat option"
  pending :: "(nat \<times> nat) list"
  nextHandle :: nat
  now :: nat
  passes :: "nat list"

definition setTimeout :: "nat \<Rightarrow> scheduler \<Rightarrow> nat \<times> scheduler" where
  "setTimeout delay s =
     (nextHandle s,
      s\<lparr>pending := pending s @ [(nextHandle s, now s + delay)], nextHandle := nextHandle s + 1\<rparr>)"

definition clearTimeout :: "nat \<Rightarrow> scheduler \<Rightarrow> scheduler" where
  "clearTimeout h s = s\<lparr>pending := filter (\<lambda>(h', due). h' \<noteq> h) (pending s)\<rparr>"

text \<open>
  \<open>if (updateTimeoutRef.current) clearTimeout(updateTimeoutRef.current);
  updateTimeoutRef.current = setTimeout(updateActionMaps, 100)\<close>.
\<close>

definition debouncedUpdate :: "scheduler \<Rightarrow> scheduler" where
  "debouncedUpdate s =
     (let s1 = (case updateTimeoutRef s of
                  Some h \<Rightarrow> if h \<noteq> 0 then clearTimeout h s else s
                | None \<Rightarrow> s);
          (h', s2) = setTimeout 100 s1
      in s2\<lparr>updateTimeoutRef := Some h'\<rparr>)"

text \<open>A mutation record, as far as the observer's callback reads it.\<close>

datatype mutationType = Attributes | ChildList | CharacterData

record mutation =
  mtype :: mutationType
  tagName :: string

text \<open>The loop \<open>for (const mutation of mutations)\<close> that sets \<open>shouldUpdate\<close>.\<close>

fun shouldUpdate :: "mutation list \<Rightarrow> bool" where
  "shouldUpdate [] = False"
| "shouldUpdate (m # rest) =
     (if mtype m = Attributes then
        (if tagName m = ''INPUT'' \<or> tagName m = ''BUTTON'' \<or> tagName m = ''SELECT'' then True
         else shouldUpdate rest)
      else if mtype m = ChildList then True
      else shouldUpdate rest)"

definition observerCallback :: "mutation list \<Rightarrow> scheduler \<Rightarrow> scheduler" where
  "observerCallback mutations s = (if shouldUpdate mutations then debouncedUpdate s else s)"

text \<open>The cleanup of the effect, after \<open>observer.disconnect()\<close>:
  \<open>if (updateTimeoutRef.current) clearTimeout(updateTimeoutRef.current)\<close>.\<close>

definition teardown :: "scheduler \<Rightarrow> scheduler" where
  "teardown s =
     (case updateTimeoutRef s of
        Some h \<Rightarrow> if h \<noteq> 0 then clearTimeout h s else s
      | None \<Rightarrow> s)"

text \<open>
  Time passes until \<open>t\<close>: every pending timer due by then runs \<open>updateActionMaps\<close> at its
  due time and is pending no more.
\<close>

definition advance :: "nat \<Rightarrow> scheduler \<Rightarrow> scheduler" where
  "advance t s =
     s\<lparr>passes := passes s @ sort (map snd (filter (\<lambda>(h, due). due \<le> t) (pending s))),
       pending := filter (\<lambda>(h, due). \<not> due \<le> t) (pending s),
       now := max (now s) t\<rparr>"

text \<open>The observer's callback is called at the given times with the given records.\<close>

fun runCallbacks :: "(nat \<times> mutation list) list \<Rightarrow> scheduler \<Rightarrow> scheduler" where
  "runCallbacks [] s = s"
| "runCallbacks ((t, mutations) # rest) s =
     runCallbacks rest (observerCallback mutations (advance t s))"

text \<open>
  A burst after a mutation at time \<open>prev\<close>: each callback holds a qualifying mutation and
  comes less than 100 ms after the one before.
\<close>

fun burst :: "nat \<Rightarrow> (nat \<times> mutation list) list \<Rightarrow> bool" where
  "burst prev [] = True"
| "burst prev ((t, mutations) # rest) =
     (prev \<le> t \<and> t < prev + 100 \<and> shouldUpdate mutations \<and> burst t rest)"

text \<open>
  The states the scheduler is in: handles are positive and below the next one; the only
  timer that can be pending is the one the ref holds, and it is due in the future.
\<close>

definition settled :: "scheduler \<Rightarrow> bool" where
  "settled s =
     (0 < nextHandle s
      \<and> (case updateTimeoutRef s of None \<Rightarrow> True | Some h \<Rightarrow> h < nextHandle s)
      \<and> (pending s = []
          \<or> (\<exists>h due. pending s = [(h, due)] \<and> updateTimeoutRef s = Some h \<and> 0 < h \<and> now s < due)))"

section \<open>Properties of the Registration Context\<close>

lemma map_get_set_same: "map_get (map_set k v m) k = Some v"
  by (induction m) auto

lemma map_get_set_other: "k' \<noteq> k \<Longrightarrow> map_get (map_set k v m) k' = map_get m k'"
  by (induction m) auto

lemma map_keys_Nil: "map_keys [] = []"
  by (simp add: map_keys_def)

lemma map_keys_Cons: "map_keys ((k, v) # m) = k # map_keys m"
  by (simp add: map_keys_def)

lemma map_keys_set_present: "k \<in> set (map_keys m) \<Longrightarrow> map_keys (map_set k v m) = map_keys m"
  by (induction m) (auto simp: map_keys_Cons map_keys_Nil split: if_splits)

lemma map_delete_absent: "k \<notin> set (map_keys m) \<Longrightarrow> map_delete k m = m"
  by (induction m) (auto simp: map_keys_def)

lemma set_map_keys_set: "set (map_keys (map_set k v m)) = insert k (set (map_keys m))"
  by (induction m) (auto simp: map_keys_Cons map_keys_Nil split: if_splits)

lemma distinct_map_set: "distinct (map_keys m) \<Longrightarrow> distinct (map_keys (map_set k v m))"
proof (induction m)
  case Nil
  then show ?case by (simp add: map_keys_def)
next
  case (Cons p m)
  obtain k' v' where p: "p = (k', v')" by (cases p)
  show ?case
  proof (cases "k' = k")
    case True
    with Cons.prems p show ?thesis by (simp add: map_keys_def)
  next
    case False
    have "k' \<notin> set (map_keys (map_set k v m))"
      using Cons.prems p False by (simp add: set_map_keys_set) (simp add: map_keys_def)
    moreover have "distinct (map_keys (map_set k v m))"
      using Cons.IH Cons.prems p by (simp add: map_keys_def)
    ultimately show ?thesis using p False by (simp add: map_keys_def)
  qed
qed

text \<open>
  C9. Registering an action whose id is already in the map replaces that entry (a lookup of
  the id gives the new action), leaves the entry of every other id as it was and keeps the
  order of the keys; unregistering an id that is not in the map returns the map unchanged.
\<close>

theorem C9_register_overwrites_unregister_absent_noop:
  "(aid action \<in> set (map_keys m) \<longrightarrow>
      map_get (registerAction action m) (aid action) = Some action
    \<and> (\<forall>k. k \<noteq> aid action \<longrightarrow> map_get (registerAction action m) k = map_get m k)
    \<and> map_keys (registerAction action m) = map_keys m)
 \<and> (k' \<notin> set (map_keys m) \<longrightarrow> unregisterAction k' m = m)"
  by (simp add: registerAction_def unregisterAction_def map_get_set_same map_get_set_other
      map_keys_set_present map_delete_absent)

theorem C9_witness:
  "aid \<lparr>aid = ''a'', description = ''new'', handler = (\<lambda>_. Returns)\<rparr>
     \<in> set (map_keys [(''a'', \<lparr>aid = ''a'', description = ''old'', handler = (\<lambda>_. Returns)\<rparr>),
                       (''b'', \<lparr>aid = ''b'', description = ''other'', handler = (\<lambda>_. Returns)\<rparr>)])
 \<and> ''c'' \<notin> set (map_keys [(''a'', \<lparr>aid = ''a'', description = ''old'', handler = (\<lambda>_. Returns)\<rparr>),
                       (''b'', \<lparr>aid = ''b'', description = ''other'', handler = (\<lambda>_. Returns)\<rparr>)])
 \<and> map_get (registerAction \<lparr>aid = ''a'', description = ''new'', handler = (\<lambda>_. Returns)\<rparr>
       [(''a'', \<lparr>aid = ''a'', description = ''old'', handler = (\<lambda>_. Returns)\<rparr>),
        (''b'', \<lparr>aid = ''b'', description = ''other'', handler = (\<lambda>_. Returns)\<rparr>)]) ''a''
     = Some \<lparr>aid = ''a'', description = ''new'', handler = (\<lambda>_. Returns)\<rparr>
 \<and> unregisterAction ''c''
       [(''a'', \<lparr>aid = ''a'', description = ''old'', handler = (\<lambda>_. Returns)\<rparr>),
        (''b'', \<lparr>aid = ''b'', description = ''other'', handler = (\<lambda>_. Returns)\<rparr>)]
     = [(''a'', \<lparr>aid = ''a'', description = ''old'', handler = (\<lambda>_. Returns)\<rparr>),
        (''b'', \<lparr>aid = ''b'', description = ''other'', handler = (\<lambda>_. Returns)\<rparr>)]"
  using C9_register_overwrites_unregister_absent_noop
    [of "\<lparr>aid = ''a'', description = ''new'', handler = (\<lambda>_. Returns)\<rparr>"
        "[(''a'', \<lparr>aid = ''a'', description = ''old'', handler = (\<lambda>_. Returns)\<rparr>),
          (''b'', \<lparr>aid = ''b'', description = ''other'', handler = (\<lambda>_. Returns)\<rparr>)]"
        "''c''"]
  by (simp add: map_keys_def)

section \<open>Properties of the Tree Walker\<close>




lemma map_set_absent: "k \<notin> set (map_keys m) \<Longrightarrow> map_set k v m = m @ [(k, v)]"
  by (induction m) (auto simp: map_keys_Cons map_keys_Nil)

lemma map_keys_append: "map_keys (m @ m') = map_keys m @ map_keys m'"
  by (simp add: map_keys_def)







section \<open>Properties of the Action Extractor\<close>

lemma digits_nth_inj: "i < 10 \<Longrightarrow> j < 10 \<Longrightarrow> digits ! i = digits ! j \<Longrightarrow> i = j"
proof -
  have d: "distinct digits" by (simp add: digits_def)
  have l: "length digits = 10" by (simp add: digits_def)
  show "i < 10 \<Longrightarrow> j < 10 \<Longrightarrow> digits ! i = digits ! j \<Longrightarrow> i = j"
    using d l by (simp add: nth_eq_iff_index_eq)
qed

lemma showNat_nonempty: "showNat n \<noteq> []"
  by (subst showNat.simps) simp

lemma showNat_inj: "showNat m = showNat n \<Longrightarrow> m = n"
proof (induction m arbitrary: n rule: showNat.induct)
  case (1 m)
  show ?case
  proof (cases "m < 10")
    case True
    show ?thesis
    proof (cases "n < 10")
      case nT: True
      from "1.prems" True nT have "digits ! m = digits ! n"
        by (simp add: showNat.simps [of m] showNat.simps [of n])
      with True nT show ?thesis using digits_nth_inj by blast
    next
      case nF: False
      from "1.prems" True nF have "[digits ! m] = showNat (n div 10) @ [digits ! (n mod 10)]"
        by (simp add: showNat.simps [of m] showNat.simps [of n])
      then show ?thesis
        using showNat_nonempty [of "n div 10"] by (cases "showNat (n div 10)") auto
    qed
  next
    case False
    show ?thesis
    proof (cases "n < 10")
      case nT: True
      from "1.prems" False nT have "showNat (m div 10) @ [digits ! (m mod 10)] = [digits ! n]"
        by (simp add: showNat.simps [of m] showNat.simps [of n])
      then show ?thesis
        using showNat_nonempty [of "m div 10"] by (cases "showNat (m div 10)") auto
    next
      case nF: False
      from "1.prems" False nF
      have "showNat (m div 10) @ [digits ! (m mod 10)]
          = showNat (n div 10) @ [digits ! (n mod 10)]"
        by (simp add: showNat.simps [of m] showNat.simps [of n])
      then have a: "showNat (m div 10) = showNat (n div 10)"
        and b: "digits ! (m mod 10) = digits ! (n mod 10)"
        by simp_all
      from "1.IH" [OF False a] have dv: "m div 10 = n div 10" .
      have md: "m mod 10 = n mod 10" using b by (intro digits_nth_inj) simp_all
      from dv md show ?thesis by (metis div_mult_mod_eq)
    qed
  qed
qed

lemma actionName_inj: "actionName i = actionName j \<Longrightarrow> i = j"
  by (simp add: actionName_def showNat_inj)

lemma addAction_dense:
  assumes "dense st"
  shows "dense (addAction componentName currentPath semanticId identifyingProps propKey propValue st)"
proof -
  let ?st' = "addAction componentName currentPath semanticId identifyingProps propKey propValue st"
  let ?e = "newAction componentName currentPath semanticId identifyingProps propKey propValue
              (actionName (actionId st))"
  have e: "e_id ?e = actionName (actionId st)"
    by (simp add: newAction_def)
  have reg: "actionRegistry ?st' = map_set (actionName (actionId st)) ?e (actionRegistry st)"
    by (simp add: addAction_def Let_def actionName_def)
  have cnt: "actionId ?st' = Suc (actionId st)"
    by (simp add: addAction_def Let_def)
  have fresh: "actionName (actionId st) \<notin> set (map_keys (actionRegistry st))"
    using assms by (auto simp: dense_def dest: actionName_inj)
  have "actionRegistry ?st' = actionRegistry st @ [(actionName (actionId st), ?e)]"
    using reg map_set_absent [OF fresh] by simp
  with assms e cnt show ?thesis
    by (simp add: dense_def map_keys_append map_keys_Cons map_keys_Nil)
qed

lemma extractHandlers_dense:
  "dense st \<Longrightarrow>
   dense (extractHandlers keys ps componentName currentPath semanticId identifyingProps st)"
  by (induction keys arbitrary: st) (auto simp: addAction_dense split: option.splits propval.splits)

lemma visitNode_dense:
  assumes d: "dense st" and v: "visitNode node path st = (currentPath, st')"
  shows "dense st'"
proof -
  have "dense (st\<lparr>componentCounts := c\<rparr>)" for c
    using d by (simp add: dense_def)
  then show "dense st'"
    using v extractHandlers_dense by (auto simp: visitNode_def Let_def)
qed

lemma traverse_dense:
  "dense st \<Longrightarrow> dense (traverseAndExtractActions n path st)"
  "dense st \<Longrightarrow> dense (whileChildActions c path st)"
proof (induction n path st and c path st rule: traverseAndExtractActions_whileChildActions.induct)
  case (1 path st)
  then show ?case by simp
next
  case (2 et p mp pp ch sib path st)
  obtain currentPath st' where v: "visitNode (Fiber et p mp pp ch sib) path st = (currentPath, st')"
    by (cases "visitNode (Fiber et p mp pp ch sib) path st")
  from visitNode_dense [OF "2.prems" v] have "dense st'" .
  from "2.IH" [OF v [symmetric] this] v show ?case by simp
next
  case (3 currentPath st)
  then show ?case by simp
next
  case (4 et p mp pp ch sib currentPath st)
  then show ?case by simp
qed

lemma extends_refl: "dense st \<Longrightarrow> extends st st []"
  by (simp add: extends_def)

lemma extends_trans:
  "extends st st' ds \<Longrightarrow> extends st' st'' ds' \<Longrightarrow> extends st st'' (ds @ ds')"
  by (simp add: extends_def enumerate_append_eq)

lemma addAction_extends:
  assumes d: "dense st"
  shows "extends st (addAction componentName currentPath semanticId identifyingProps propKey propValue st)
           [(componentName, propKey, propValue)]"
proof -
  let ?st' = "addAction componentName currentPath semanticId identifyingProps propKey propValue st"
  let ?e = "newAction componentName currentPath semanticId identifyingProps propKey propValue
              (actionName (actionId st))"
  have reg: "actionRegistry ?st' = map_set (actionName (actionId st)) ?e (actionRegistry st)"
    by (simp add: addAction_def Let_def actionName_def)
  have cnt: "actionId ?st' = Suc (actionId st)"
    by (simp add: addAction_def Let_def)
  have fresh: "actionName (actionId st) \<notin> set (map_keys (actionRegistry st))"
    using d by (auto simp: dense_def dest: actionName_inj)
  have app: "actionRegistry ?st' = actionRegistry st @ [(actionName (actionId st), ?e)]"
    using reg map_set_absent [OF fresh] by simp
  have f: "entryFacts (actionName (actionId st), ?e)
      = numbered (actionId st, componentName, propKey, propValue)"
    by (simp add: entryFacts_def numbered_def newAction_def)
  show ?thesis
    using addAction_dense [OF d, of componentName currentPath semanticId identifyingProps propKey propValue]
      cnt app f
    by (simp add: extends_def)
qed

lemma extractHandlers_extends:
  "dense st \<Longrightarrow>
   extends st (extractHandlers keys ps componentName currentPath semanticId identifyingProps st)
     (map (\<lambda>(propKey, propValue). (componentName, propKey, propValue)) (handlersIn keys ps))"
proof (induction keys arbitrary: st)
  case Nil
  then show ?case by (simp add: extends_refl)
next
  case (Cons k keys)
  let ?f = "\<lambda>(propKey, propValue). (componentName, propKey, propValue)"
  show ?case
  proof (cases "\<exists>v. map_get ps k = Some (PFun v) \<and> startsWith k ''on''")
    case True
    then obtain v where v: "map_get ps k = Some (PFun v)" "startsWith k ''on''" by blast
    let ?st1 = "addAction componentName currentPath semanticId identifyingProps k v st"
    have e1: "extends st ?st1 [(componentName, k, v)]"
      by (rule addAction_extends [OF Cons.prems])
    then have "dense ?st1" by (simp add: extends_def)
    from extends_trans [OF e1 Cons.IH [OF this]] v show ?thesis by simp
  next
    case False
    then have same: "extractHandlers (k # keys) ps componentName currentPath semanticId identifyingProps st
        = extractHandlers keys ps componentName currentPath semanticId identifyingProps st"
      and h: "handlersIn (k # keys) ps = handlersIn keys ps"
      by (auto split: option.splits propval.splits)
    from Cons.IH [OF Cons.prems] show ?thesis unfolding same h .
  qed
qed

lemma visitNode_extends:
  assumes d: "dense st" and v: "visitNode node path st = (currentPath, st')"
  shows "extends st st'
     (map (\<lambda>(propKey, propValue). (getDisplayName_registry (elementType node), propKey, propValue))
        (handlersIn (map fst (propsSource node)) (propsSource node)))"
proof -
  from v obtain c cp sid ip where
    st': "st' = extractHandlers (map fst (propsSource node)) (propsSource node)
            (getDisplayName_registry (elementType node)) cp sid ip (st\<lparr>componentCounts := c\<rparr>)"
    by (auto simp: visitNode_def Let_def)
  have d1: "dense (st\<lparr>componentCounts := c\<rparr>)"
    using d by (simp add: dense_def)
  have "extends (st\<lparr>componentCounts := c\<rparr>) st'
     (map (\<lambda>(propKey, propValue). (getDisplayName_registry (elementType node), propKey, propValue))
        (handlersIn (map fst (propsSource node)) (propsSource node)))"
    unfolding st' by (rule extractHandlers_extends [OF d1])
  then show ?thesis by (simp add: extends_def)
qed

lemma traverse_extends:
  "dense st \<Longrightarrow> extends st (traverseAndExtractActions n path st) (discovered n)"
  "dense st \<Longrightarrow> extends st (whileChildActions c path st) (discoveredChildren c)"
proof (induction n path st and c path st rule: traverseAndExtractActions_whileChildActions.induct)
  case (1 path st)
  then show ?case by (simp add: extends_refl)
next
  case (2 et p mp pp ch sib path st)
  obtain currentPath st' where v: "visitNode (Fiber et p mp pp ch sib) path st = (currentPath, st')"
    by (cases "visitNode (Fiber et p mp pp ch sib) path st")
  from visitNode_extends [OF "2.prems" v]
  have e1: "extends st st'
     (map (\<lambda>(propKey, propValue). (getDisplayName_registry et, propKey, propValue))
        (handlersIn (map fst (propsSource (Fiber et p mp pp ch sib))) (propsSource (Fiber et p mp pp ch sib))))"
    by simp
  then have "dense st'" by (simp add: extends_def)
  from extends_trans [OF e1 "2.IH" [OF v [symmetric] this]] v show ?case by simp
next
  case (3 currentPath st)
  then show ?case by (simp add: extends_refl)
next
  case (4 et p mp pp ch sib currentPath st)
  from "4.IH"(1) [OF "4.prems"]
  have e1: "extends st (traverseAndExtractActions (Some (Fiber et p mp pp ch sib)) currentPath st)
      (discovered (Some (Fiber et p mp pp ch sib)))" .
  then have "dense (traverseAndExtractActions (Some (Fiber et p mp pp ch sib)) currentPath st)"
    by (simp add: extends_def)
  from extends_trans [OF e1 "4.IH"(2) [OF this]] show ?case by simp
qed

text \<open>
  C6. One pass starts its counter at zero and shares it over the whole traversal. The
  registry it returns holds exactly the actions the traversal discovers, in the order it
  discovers them: the k-th discovered action, counted from zero, is stored under the key
  \<open>action_k\<close>, carries that id, and is the entry of that action's component, event,
  function and source text. So the ids are \<open>action_0\<close>, ..., \<open>action_(n-1)\<close> for the
  n discovered actions, without a gap, and no two are equal.
\<close>

theorem C6_action_ids_dense_and_distinct:
  "map (\<lambda>(key, e). (key, e_id e, e_component e, e_event e, execute e, toString e))
     (createActionRegistry root)
   = map (\<lambda>(k, componentName, propKey, propValue).
            (actionName k, actionName k, componentName, propKey, fcall propValue, fsource propValue))
       (enumerate 0 (discovered root))
 \<and> length (createActionRegistry root) = length (discovered root)
 \<and> map_keys (createActionRegistry root) = map actionName [0..<length (discovered root)]
 \<and> map (e_id \<circ> snd) (createActionRegistry root) = map actionName [0..<length (discovered root)]
 \<and> distinct (map_keys (createActionRegistry root))
 \<and> actionName 0 = ''action_0''"
proof -
  let ?s0 = "\<lparr>actionRegistry = [], actionId = 0, componentCounts = []\<rparr>"
  let ?st = "traverseAndExtractActions root [] ?s0"
  have "dense ?s0" by (simp add: dense_def map_keys_Nil)
  from traverse_extends(1) [OF this, of root "[]"]
  have e: "extends ?s0 ?st (discovered root)" .
  then have d: "dense ?st" and n: "actionId ?st = length (discovered root)"
    and f: "map entryFacts (actionRegistry ?st) = map numbered (enumerate 0 (discovered root))"
    by (simp_all add: extends_def)
  have len: "length (actionRegistry ?st) = length (discovered root)"
    using f by (metis length_map length_enumerate)
  have "distinct (map actionName [0..<actionId ?st])"
    by (simp add: distinct_map inj_on_def actionName_inj)
  moreover have "actionName 0 = ''action_0''"
    by (simp add: actionName_def showNat.simps digits_def)
  ultimately show ?thesis
    using d n len f [unfolded entryFacts_def numbered_def]
    by (simp add: createActionRegistry_def dense_def)
qed

text \<open>
  What the chain gives in terms of the node's props: \<open>num\<close> when defined, else \<open>index\<close>
  when defined, else \<open>id\<close> when truthy, else the instance number of a repeated instance,
  else nothing. A \<open>key\<close> prop has no part in it.
\<close>

lemma captureProps_get:
  "distinct names \<Longrightarrow>
   map_get (captureProps names ps acc) k =
     (if k \<in> set names \<and> defined (map_get ps k) then map_get ps k else map_get acc k)"
proof (induction names arbitrary: acc)
  case Nil
  then show ?case by simp
next
  case (Cons n names)
  from Cons.prems have d: "distinct names" and nn: "n \<notin> set names" by simp_all
  note IH = Cons.IH [OF d]
  show ?case
  proof (cases "k = n")
    case True
    show ?thesis
    proof (cases "defined (map_get ps n)")
      case dT: True
      then obtain v where v: "map_get ps n = Some v" by (cases "map_get ps n") auto
      with nn dT show ?thesis unfolding True by (simp add: IH [unfolded True] map_get_set_same)
    next
      case False
      with nn show ?thesis unfolding True by (simp add: IH [unfolded True])
    qed
  next
    case False
    then show ?thesis by (simp add: IH map_get_set_other)
  qed
qed

lemma identifyingProps_get:
  "map_get (identifyingPropsOf ps) k =
     (if k \<in> set identifyingNames \<and> defined (map_get ps k) then map_get ps k else None)"
  unfolding identifyingPropsOf_def
  by (subst captureProps_get) (simp_all add: identifyingNames_def)

lemma semanticId_precedence:
  "semanticIdOf (identifyingPropsOf ps) n =
     (if defined (map_get ps ''num'') then ''[num='' @ templateStr (the (map_get ps ''num'')) @ '']''
      else if defined (map_get ps ''index'') then
        ''[index='' @ templateStr (the (map_get ps ''index'')) @ '']''
      else if truthy (map_get ps ''id'') then ''[id='' @ templateStr (the (map_get ps ''id'')) @ '']''
      else if n > 0 then ''[instance='' @ showNat n @ '']''
      else [])"
proof -
  have t: "truthy x \<Longrightarrow> defined x" for x
    by (cases x rule: truthy.cases) auto
  have num: "map_get (identifyingPropsOf ps) ''num''
      = (if defined (map_get ps ''num'') then map_get ps ''num'' else None)"
    by (simp add: identifyingProps_get identifyingNames_def)
  have index: "map_get (identifyingPropsOf ps) ''index''
      = (if defined (map_get ps ''index'') then map_get ps ''index'' else None)"
    by (simp add: identifyingProps_get identifyingNames_def)
  have id: "map_get (identifyingPropsOf ps) ''id''
      = (if defined (map_get ps ''id'') then map_get ps ''id'' else None)"
    by (simp add: identifyingProps_get identifyingNames_def)
  have key: "map_get (identifyingPropsOf ps) ''key'' = None"
    by (simp add: identifyingProps_get identifyingNames_def)
  show ?thesis
    unfolding semanticIdOf_def num index id key
    using t [of "map_get ps ''id''"] by auto
qed

text \<open>
  C3, at a node whose only identifying prop is \<open>key\<close>. The list of captured props does not
  hold \<open>key\<close>, so the \<open>key\<close> branch of the chain never fires: the node's action has an
  empty semanticId and a description without one.
\<close>

theorem C3_key_prop_gives_no_semanticId:
  "map (\<lambda>(k, e). (k, e_semanticId e, e_description e))
     (createActionRegistry (Some (Fiber (ETString ''li'') None
        (Some [(''key'', PPrim (Str ''k1'')),
               (''onClick'', PFun \<lparr>fname = ''remove'', fsource = ''() => remove()'',
                                  fcall = (\<lambda>_. Returns)\<rparr>)])
        None None None)))
   = [(''action_0'', [], ''onClick handler on li at li'')]"
  by (simp add: createActionRegistry_def visitNode_def Let_def componentKey_def countOf_def
      instanceIdentifier_def identifyingPropsOf_def identifyingNames_def semanticIdOf_def
      propsSource_def addAction_def newAction_def startsWith_def showNat.simps digits_def)

text \<open>Two siblings named \<open>Row\<close> under one parent, each with a handler: the paths of their
  actions end in \<open>Row\<close> and \<open>Row[1]\<close>.\<close>

lemma sibling_rows_labelled:
  "map (e_path \<circ> snd)
     (createActionRegistry (Some (Fiber (ETString ''ul'') None None None
        (Some (Fiber (ETFunction None ''Row'') None
            (Some [(''onClick'', PFun \<lparr>fname = ''go'', fsource = ''() => go()'',
                                      fcall = (\<lambda>_. Returns)\<rparr>)])
            None None
          (Some (Fiber (ETFunction None ''Row'') None
            (Some [(''onClick'', PFun \<lparr>fname = ''go'', fsource = ''() => go()'',
                                      fcall = (\<lambda>_. Returns)\<rparr>)])
             None None None))))
        None)))
   = [''ul > Row'', ''ul > Row[1]'']"
  by (simp add: createActionRegistry_def visitNode_def Let_def componentKey_def countOf_def
      instanceIdentifier_def identifyingPropsOf_def identifyingNames_def semanticIdOf_def
      propsSource_def addAction_def newAction_def startsWith_def showNat.simps digits_def
      truthyStr_def)

text \<open>
  C7, at a tree where a component name holds the separator of the occurrence key. Under the
  root \<open>ul\<close> the first child is named \<open>a>b\<close>; the second child \<open>a\<close> has one child \<open>b\<close>,
  which has a handler. The node \<open>b\<close> is the first node named \<open>b\<close> under the prefix
  \<open>ul, a\<close>, yet its key \<open>ul>a>b\<close> was already counted for the node \<open>a>b\<close> under the
  prefix \<open>ul\<close>, and it is labelled \<open>b[1]\<close>.
\<close>

theorem C7_key_collision_labels_first_occurrence:
  "map (e_path \<circ> snd)
     (createActionRegistry (Some (Fiber (ETString ''ul'') None None None
        (Some (Fiber (ETFunction (Some ''a>b'') ''Wrapped'') None None None None
          (Some (Fiber (ETString ''a'') None None None
             (Some (Fiber (ETString ''b'') None
                (Some [(''onClick'', PFun \<lparr>fname = ''go'', fsource = ''() => go()'',
                                          fcall = (\<lambda>_. Returns)\<rparr>)])
                None None None))
             None))))
        None)))
   = [''ul > a > b[1]'']"
  by (simp add: createActionRegistry_def visitNode_def Let_def componentKey_def countOf_def
      instanceIdentifier_def identifyingPropsOf_def identifyingNames_def semanticIdOf_def
      propsSource_def addAction_def newAction_def startsWith_def showNat.simps digits_def
      truthyStr_def)

section \<open>Properties of the local scoring strategy\<close>

text \<open>\<open>includes_str\<close> is the substring relation, and \<open>split_whitespace\<close> keeps the empty
  pieces at the ends.\<close>

lemma startsWith_iff: "startsWith s w = (\<exists>b. s = w @ b)"
proof
  assume "startsWith s w"
  then have "s = w @ drop (length w) s"
    by (metis append_take_drop_id startsWith_def)
  then show "\<exists>b. s = w @ b" ..
next
  assume "\<exists>b. s = w @ b"
  then show "startsWith s w" by (auto simp: startsWith_def)
qed

lemma includes_str_iff: "includes_str s w = (\<exists>a b. s = a @ w @ b)"
proof (induction s)
  case Nil
  then show ?case by auto
next
  case (Cons c cs)
  have "(\<exists>a b. c # cs = a @ w @ b) = ((\<exists>b. c # cs = w @ b) \<or> (\<exists>a b. cs = a @ w @ b))"
    (is "?L = ?R")
  proof
    assume ?L
    then obtain a b where ab: "c # cs = a @ w @ b" by blast
    show ?R
    proof (cases a)
      case Nil
      with ab show ?thesis by auto
    next
      case (Cons x a')
      with ab have "cs = a' @ w @ b" by simp
      then show ?thesis by blast
    qed
  next
    assume ?R
    then show ?L
    proof
      assume "\<exists>b. c # cs = w @ b"
      then obtain b where "c # cs = [] @ w @ b" by auto
      then show ?L by blast
    next
      assume "\<exists>a b. cs = a @ w @ b"
      then obtain a b where "c # cs = (c # a) @ w @ b" by auto
      then show ?L by blast
    qed
  qed
  with Cons show ?case by (simp add: startsWith_iff)
qed

lemma split_whitespace_examples:
  "split_whitespace ''delete   groceries'' = [''delete'', ''groceries'']"
  "split_whitespace '' add task '' = ['''', ''add'', ''task'', '''']"
  by (simp_all add: split_whitespace_def isSpace_def)

lemma wordLoop_count:
  "wordLoop ws d n = n + length (filter (includes_str d) ws)"
  by (induction ws arbitrary: n) auto

lemma wordLoop_score:
  "wordLoop (split_whitespace (toLowerCase command)) (toLowerCase (description a)) 0
   = score command a"
  by (simp add: wordLoop_count score_def)

lemma actionLoop_firstMax:
  assumes "actionLoop (split_whitespace (toLowerCase command)) rest (b, m) = (b', m')"
    and "firstMax (score command) pre b"
    and "m = (case b of None \<Rightarrow> 0 | Some a \<Rightarrow> score command a)"
  shows "firstMax (score command) (pre @ rest) b'"
  using assms
proof (induction rest arbitrary: pre b m)
  case Nil
  then show ?case by simp
next
  case (Cons a rest)
  let ?sc = "score command"
  show ?case
  proof (cases "?sc a > m")
    case True
    have fm: "firstMax ?sc (pre @ [a]) (Some a)"
      unfolding firstMax_def
    proof (simp, intro exI [of _ "length pre"] conjI allI impI)
      show "length pre < Suc (length pre)" by simp
      show "a = (pre @ [a]) ! length pre" by simp
      show "0 < ?sc a" using True by simp
    next
      fix j assume "j < Suc (length pre)"
      then show "?sc ((pre @ [a]) ! j) \<le> ?sc a"
        using Cons.prems(2,3) True
        by (cases b) (auto simp: firstMax_def nth_append less_Suc_eq intro: order.trans less_imp_le)
    next
      fix j assume "j < length pre"
      then show "?sc ((pre @ [a]) ! j) < ?sc a"
        using Cons.prems(2,3) True
        by (cases b) (auto simp: firstMax_def nth_append intro: le_less_trans)
    qed
    from Cons.prems(1) True
    have "actionLoop (split_whitespace (toLowerCase command)) rest (Some a, ?sc a) = (b', m')"
      by (simp add: wordLoop_score Let_def)
    from Cons.IH [OF this fm] show ?thesis by simp
  next
    case False
    have fm: "firstMax ?sc (pre @ [a]) b"
    proof (cases b)
      case None
      with Cons.prems(2,3) False show ?thesis
        by (auto simp: firstMax_def nth_append less_Suc_eq)
    next
      case (Some x)
      with Cons.prems(2,3) False show ?thesis
        apply (clarsimp simp: firstMax_def)
        subgoal for i
          by (rule exI [of _ i]) (auto simp: nth_append less_Suc_eq)
        done
    qed
    from Cons.prems(1) False
    have "actionLoop (split_whitespace (toLowerCase command)) rest (b, m) = (b', m')"
      by (simp add: wordLoop_score Let_def)
    from Cons.IH [OF this fm Cons.prems(3)] show ?thesis by simp
  qed
qed

lemma actionLoop_result:
  "firstMax (score command) acts
     (fst (actionLoop (split_whitespace (toLowerCase command)) acts (None, 0)))"
proof -
  obtain b' m' where
    r: "actionLoop (split_whitespace (toLowerCase command)) acts (None, 0) = (b', m')"
    by (cases "actionLoop (split_whitespace (toLowerCase command)) acts (None, 0)")
  have "firstMax (score command) [] None" by (simp add: firstMax_def)
  from actionLoop_firstMax [OF r this] r show ?thesis by simp
qed

lemma findAndExecuteAction_cases:
  assumes "trim command \<noteq> []"
  shows "(case fst (actionLoop (split_whitespace (toLowerCase command)) (map_values actions) (None, 0)) of
           None \<Rightarrow> findAndExecuteAction command actions st
                    = \<lparr>state = st\<lparr>status := sorry_text\<rparr>, calls = [], uncaught = None\<rparr>
         | Some a \<Rightarrow> findAndExecuteAction command actions st
                    = (case handler a [] of
                         Returns \<Rightarrow>
                           \<lparr>state = st\<lparr>status := executing_text (description a), query := []\<rparr>,
                            calls = [(aid a, [])], uncaught = None\<rparr>
                       | Throws e \<Rightarrow>
                           \<lparr>state = st\<lparr>status := executing_text (description a)\<rparr>,
                            calls = [(aid a, [])], uncaught = Some e\<rparr>))"
  using assms
  by (simp add: findAndExecuteAction_def Let_def split: prod.splits option.splits)

lemma scoring_selects_first_max:
  assumes "trim command \<noteq> []"
  shows
  "((\<forall>j<length (map_values actions). score command (map_values actions ! j) = 0) \<longrightarrow>
       findAndExecuteAction command actions st
         = \<lparr>state = st\<lparr>status := sorry_text\<rparr>, calls = [], uncaught = None\<rparr>)
 \<and> ((\<exists>j<length (map_values actions). 0 < score command (map_values actions ! j)) \<longrightarrow>
       (\<exists>i<length (map_values actions).
           0 < score command (map_values actions ! i)
         \<and> (\<forall>j<length (map_values actions).
               score command (map_values actions ! j) \<le> score command (map_values actions ! i))
         \<and> (\<forall>j<i. score command (map_values actions ! j) < score command (map_values actions ! i))
         \<and> calls (findAndExecuteAction command actions st) = [(aid (map_values actions ! i), [])]
         \<and> status (state (findAndExecuteAction command actions st))
             = executing_text (description (map_values actions ! i))
         \<and> (handler (map_values actions ! i) [] = Returns \<longrightarrow>
               query (state (findAndExecuteAction command actions st)) = []
             \<and> uncaught (findAndExecuteAction command actions st) = None)
         \<and> (\<forall>e. handler (map_values actions ! i) [] = Throws e \<longrightarrow>
               query (state (findAndExecuteAction command actions st)) = query st
             \<and> uncaught (findAndExecuteAction command actions st) = Some e)))"
proof -
  let ?acts = "map_values actions"
  let ?b = "fst (actionLoop (split_whitespace (toLowerCase command)) ?acts (None, 0))"
  let ?r = "findAndExecuteAction command actions st"
  have fm: "firstMax (score command) ?acts ?b" by (rule actionLoop_result)
  note fc = findAndExecuteAction_cases [OF assms, of actions st]
  show ?thesis
  proof (cases ?b)
    case None
    with fm have zero: "\<forall>j<length ?acts. score command (?acts ! j) = 0"
      by (simp add: firstMax_def)
    from None fc have "?r = \<lparr>state = st\<lparr>status := sorry_text\<rparr>, calls = [], uncaught = None\<rparr>"
      by simp
    with zero show ?thesis by auto
  next
    case (Some a)
    with fm obtain i where i: "i < length ?acts" "a = ?acts ! i" "0 < score command a"
      "\<forall>j<length ?acts. score command (?acts ! j) \<le> score command a"
      "\<forall>j<i. score command (?acts ! j) < score command a"
      by (auto simp: firstMax_def)
    from Some fc have r: "?r = (case handler a [] of
         Returns \<Rightarrow> \<lparr>state = st\<lparr>status := executing_text (description a), query := []\<rparr>,
                     calls = [(aid a, [])], uncaught = None\<rparr>
       | Throws e \<Rightarrow> \<lparr>state = st\<lparr>status := executing_text (description a)\<rparr>,
                      calls = [(aid a, [])], uncaught = Some e\<rparr>)"
      by simp
    have nz: "\<not> (\<forall>j<length ?acts. score command (?acts ! j) = 0)"
      using i(1,2,3) by auto
    have "0 < score command (?acts ! i)
         \<and> (\<forall>j<length ?acts. score command (?acts ! j) \<le> score command (?acts ! i))
         \<and> (\<forall>j<i. score command (?acts ! j) < score command (?acts ! i))
         \<and> calls ?r = [(aid (?acts ! i), [])]
         \<and> status (state ?r) = executing_text (description (?acts ! i))
         \<and> (handler (?acts ! i) [] = Returns \<longrightarrow> query (state ?r) = [] \<and> uncaught ?r = None)
         \<and> (\<forall>e. handler (?acts ! i) [] = Throws e \<longrightarrow>
               query (state ?r) = query st \<and> uncaught ?r = Some e)"
      using i r by (auto split: outcome.splits)
    with i(1) nz show ?thesis by blast
  qed
qed

lemmas text_eval = score_def split_whitespace_def isSpace_def toLowerCase_def toLowerChar_def
  startsWith_def squote_def map_values_def trim_def

lemma xyz123_tokens: "split_whitespace (toLowerCase ''xyz123'') = [''xyz123'']"
  by (simp add: text_eval)

lemma xyz123_no_match:
  assumes "\<forall>a\<in>set (map_values actions). \<not> includes_str (toLowerCase (description a)) ''xyz123''"
  shows "findAndExecuteAction ''xyz123'' actions st
         = \<lparr>state = st\<lparr>status := sorry_text\<rparr>, calls = [], uncaught = None\<rparr>"
proof -
  have t: "trim ''xyz123'' \<noteq> []" by (simp add: text_eval)
  have "\<forall>j<length (map_values actions). score ''xyz123'' (map_values actions ! j) = 0"
    using assms by (simp add: score_def xyz123_tokens)
  with scoring_selects_first_max [OF t, of actions st] show ?thesis by blast
qed

text \<open>The query is split as it was typed: white space at its end leaves an empty token,
  which occurs in every description, so every action scores and the first one is selected.\<close>

lemma trailing_whitespace_selects_first_action:
  "findAndExecuteAction ''xyz123 ''
      [(i1, \<lparr>aid = i1, description = ''delete task '' @ squote ''Buy groceries'', handler = (\<lambda>_. Returns)\<rparr>),
       (i2, \<lparr>aid = i2, description = ''delete task '' @ squote ''Walk the dog'', handler = h2\<rparr>)]
      \<lparr>query = ''xyz123 '', status = []\<rparr>
   = \<lparr>state = \<lparr>query = [], status = executing_text (''delete task '' @ squote ''Buy groceries'')\<rparr>,
      calls = [(i1, [])], uncaught = None\<rparr>"
  by (simp add: findAndExecuteAction_def Let_def text_eval)

text \<open>A query with no white space at its ends has no empty token, and what a selected
  action leaves when its handler returns.\<close>

lemma isSpace_toLowerChar: "isSpace (toLowerChar c) = isSpace c"
  by (auto simp: isSpace_def toLowerChar_def split: option.splits if_splits)

lemma splitWs_nonempty: "splitWs b s \<noteq> []"
  by (induction s arbitrary: b) (auto split: list.splits)

lemma splitWs_inner:
  "s \<noteq> [] \<Longrightarrow> \<not> isSpace (last s) \<Longrightarrow>
   [] \<notin> set (tl (splitWs b s)) \<and> (hd (splitWs b s) = [] \<longleftrightarrow> isSpace (hd s) \<and> \<not> b)"
proof (induction s arbitrary: b)
  case Nil
  then show ?case by simp
next
  case (Cons c cs)
  show ?case
  proof (cases "cs = []")
    case True
    with Cons.prems show ?thesis by simp
  next
    case False
    with Cons.prems have l: "\<not> isSpace (last cs)" by simp
    note IH = Cons.IH [OF False l]
    show ?thesis
    proof (cases "isSpace c")
      case sp: True
      have all: "[] \<notin> set (splitWs True cs)"
        using IH [of True] splitWs_nonempty [of True cs]
        by (cases "splitWs True cs") auto
      show ?thesis
      proof (cases b)
        case True
        with sp IH [of True] show ?thesis by simp
      next
        case False
        with sp all show ?thesis by simp
      qed
    next
      case nsp: False
      obtain t ts where r: "splitWs False cs = t # ts"
        using splitWs_nonempty [of False cs] by (cases "splitWs False cs") auto
      with nsp IH [of False] show ?thesis by simp
    qed
  qed
qed

lemma trimmed_ends:
  assumes "s \<noteq> []" and "trim s = s"
  shows "\<not> isSpace (hd s) \<and> \<not> isSpace (last s)"
proof -
  have len: "length (trim s) \<le> length (dropWhile isSpace s)"
    using length_dropWhile_le [of isSpace "rev (dropWhile isSpace s)"] by (simp add: trim_def)
  have h: "\<not> isSpace (hd s)"
  proof
    assume "isSpace (hd s)"
    with assms(1) have "dropWhile isSpace s = dropWhile isSpace (tl s)" by (cases s) auto
    then have "length (dropWhile isSpace s) \<le> length (tl s)"
      using length_dropWhile_le [of isSpace "tl s"] by simp
    with len assms show False by (cases s) auto
  qed
  then have d: "dropWhile isSpace s = s" using assms(1) by (cases s) auto
  have l: "\<not> isSpace (last s)"
  proof
    assume sp: "isSpace (last s)"
    from assms(1) have "rev s \<noteq> []" by simp
    then obtain x xs where r: "rev s = x # xs" by (cases "rev s") auto
    then have "x = last s" using assms(1) by (metis hd_rev list.sel(1))
    with sp have "isSpace x" by simp
    then have "dropWhile isSpace (rev s) = dropWhile isSpace xs" unfolding r by simp
    then have "length (dropWhile isSpace (rev s)) \<le> length xs"
      using length_dropWhile_le [of isSpace xs] by simp
    moreover have "length xs < length s" using r by (metis length_rev length_Cons lessI)
    moreover have "length (trim s) = length (dropWhile isSpace (rev s))"
      using d by (simp add: trim_def)
    ultimately show False using assms(2) by simp
  qed
  from h l show ?thesis ..
qed

lemma trimmed_no_empty_token:
  assumes "command \<noteq> []" and "trim command = command"
  shows "[] \<notin> set (split_whitespace (toLowerCase command))"
proof -
  let ?s = "toLowerCase command"
  from trimmed_ends [OF assms] have e: "\<not> isSpace (hd command)" "\<not> isSpace (last command)"
    by simp_all
  have ne: "?s \<noteq> []" using assms(1) by (simp add: toLowerCase_def)
  have hd: "\<not> isSpace (hd ?s)"
    using e(1) assms(1) by (simp add: toLowerCase_def hd_map isSpace_toLowerChar)
  have last: "\<not> isSpace (last ?s)"
    using e(2) assms(1) by (simp add: toLowerCase_def last_map isSpace_toLowerChar)
  from splitWs_inner [OF ne last, of False] hd
  have "[] \<notin> set (tl (splitWs False ?s))" "hd (splitWs False ?s) \<noteq> []" by simp_all
  then show ?thesis
    using splitWs_nonempty [of False ?s]
    by (cases "splitWs False ?s") (auto simp: split_whitespace_def)
qed

lemma selected_action_returns:
  assumes "trim command \<noteq> []"
    and "\<exists>j<length (map_values actions). 0 < score command (map_values actions ! j)"
  shows "\<exists>i<length (map_values actions).
           0 < score command (map_values actions ! i)
         \<and> (\<forall>j<length (map_values actions).
               score command (map_values actions ! j) \<le> score command (map_values actions ! i))
         \<and> (\<forall>j<i. score command (map_values actions ! j) < score command (map_values actions ! i))
         \<and> (handler (map_values actions ! i) [] = Returns \<longrightarrow>
               findAndExecuteAction command actions st
               = \<lparr>state = st\<lparr>status := executing_text (description (map_values actions ! i)),
                              query := []\<rparr>,
                  calls = [(aid (map_values actions ! i), [])], uncaught = None\<rparr>)"
proof -
  let ?acts = "map_values actions"
  let ?b = "fst (actionLoop (split_whitespace (toLowerCase command)) ?acts (None, 0))"
  have fm: "firstMax (score command) ?acts ?b" by (rule actionLoop_result)
  note fc = findAndExecuteAction_cases [OF assms(1), of actions st]
  show ?thesis
  proof (cases ?b)
    case None
    with fm assms(2) show ?thesis by (auto simp: firstMax_def)
  next
    case (Some a)
    with fm obtain i where i: "i < length ?acts" "a = ?acts ! i" "0 < score command a"
      "\<forall>j<length ?acts. score command (?acts ! j) \<le> score command a"
      "\<forall>j<i. score command (?acts ! j) < score command a"
      by (auto simp: firstMax_def)
    from Some fc have "findAndExecuteAction command actions st = (case handler a [] of
         Returns \<Rightarrow> \<lparr>state = st\<lparr>status := executing_text (description a), query := []\<rparr>,
                     calls = [(aid a, [])], uncaught = None\<rparr>
       | Throws e \<Rightarrow> \<lparr>state = st\<lparr>status := executing_text (description a)\<rparr>,
                      calls = [(aid a, [])], uncaught = Some e\<rparr>)"
      by simp
    then have "handler (?acts ! i) [] = Returns \<longrightarrow>
               findAndExecuteAction command actions st
               = \<lparr>state = st\<lparr>status := executing_text (description (?acts ! i)), query := []\<rparr>,
                  calls = [(aid (?acts ! i), [])], uncaught = None\<rparr>"
      using i(2) by simp
    with i show ?thesis by blast
  qed
qed

lemma delete_groceries_returns:
  "h1 [] = Returns \<Longrightarrow>
   findAndExecuteAction ''delete groceries''
      [(i1, \<lparr>aid = i1, description = ''delete task '' @ squote ''Buy groceries'', handler = h1\<rparr>),
       (i2, \<lparr>aid = i2, description = ''delete task '' @ squote ''Walk the dog'', handler = h2\<rparr>)] st
   = \<lparr>state = st\<lparr>status := executing_text (''delete task '' @ squote ''Buy groceries''), query := []\<rparr>,
      calls = [(i1, [])], uncaught = None\<rparr>"
  by (simp add: findAndExecuteAction_def Let_def text_eval)

text \<open>
  C2, as the code has it by design. For a query that is not blank and has no white space at
  its start or end, the tokens are the words of the lower-cased query, none of them empty,
  and the score of an action is the number of tokens, repeats counted, that occur in its
  lower-cased description. When every action scores zero nothing is invoked, the status is the
  fixed sorry text and the query field is untouched. Otherwise the action selected is the
  first, in the order of the map, whose score is the greatest; when its handler, invoked with
  no argument, returns, it has been invoked once, the status is \<open>Executing: "description"\<close>
  and the query field is cleared. The query \<open>delete groceries\<close> selects the groceries
  action of the two delete-task actions, and \<open>xyz123\<close> matches nothing in any action set
  in which no lower-cased description holds \<open>xyz123\<close>.
\<close>

theorem C2_local_scoring:
  "(command \<noteq> [] \<and> trim command = command \<longrightarrow>
     [] \<notin> set (split_whitespace (toLowerCase command))
   \<and> ((\<forall>j<length (map_values actions). score command (map_values actions ! j) = 0) \<longrightarrow>
         findAndExecuteAction command actions st
           = \<lparr>state = st\<lparr>status := sorry_text\<rparr>, calls = [], uncaught = None\<rparr>)
   \<and> ((\<exists>j<length (map_values actions). 0 < score command (map_values actions ! j)) \<longrightarrow>
         (\<exists>i<length (map_values actions).
             0 < score command (map_values actions ! i)
           \<and> (\<forall>j<length (map_values actions).
                 score command (map_values actions ! j) \<le> score command (map_values actions ! i))
           \<and> (\<forall>j<i. score command (map_values actions ! j) < score command (map_values actions ! i))
           \<and> (handler (map_values actions ! i) [] = Returns \<longrightarrow>
                 findAndExecuteAction command actions st
                 = \<lparr>state = st\<lparr>status := executing_text (description (map_values actions ! i)),
                                query := []\<rparr>,
                    calls = [(aid (map_values actions ! i), [])], uncaught = None\<rparr>))))
 \<and> ((\<forall>a\<in>set (map_values actions). \<not> includes_str (toLowerCase (description a)) ''xyz123'') \<longrightarrow>
       findAndExecuteAction ''xyz123'' actions st
         = \<lparr>state = st\<lparr>status := sorry_text\<rparr>, calls = [], uncaught = None\<rparr>)
 \<and> (h1 [] = Returns \<longrightarrow>
       findAndExecuteAction ''delete groceries''
         [(i1, \<lparr>aid = i1, description = ''delete task '' @ squote ''Buy groceries'', handler = h1\<rparr>),
          (i2, \<lparr>aid = i2, description = ''delete task '' @ squote ''Walk the dog'', handler = h2\<rparr>)] st
       = \<lparr>state = st\<lparr>status := executing_text (''delete task '' @ squote ''Buy groceries''),
                      query := []\<rparr>,
          calls = [(i1, [])], uncaught = None\<rparr>)"
proof -
  have a: "[] \<notin> set (split_whitespace (toLowerCase command))"
    if "command \<noteq> [] \<and> trim command = command"
    using that trimmed_no_empty_token by blast
  have t: "trim command \<noteq> []" if "command \<noteq> [] \<and> trim command = command"
    using that by auto
  show ?thesis
    using a t scoring_selects_first_max [of command actions st]
      selected_action_returns [of command actions st]
      xyz123_no_match [of actions st] delete_groceries_returns [of h1 i1 i2 h2 st]
    by blast
qed

theorem C2_witness:
  "''delete dog'' \<noteq> [] \<and> trim ''delete dog'' = ''delete dog''
 \<and> [] \<notin> set (split_whitespace (toLowerCase ''delete dog''))
 \<and> (\<exists>j<length (map_values
       [(''t1'', \<lparr>aid = ''t1'', description = ''delete task '' @ squote ''Buy groceries'', handler = (\<lambda>_. Returns)\<rparr>),
        (''t2'', \<lparr>aid = ''t2'', description = ''delete task '' @ squote ''Walk the dog'', handler = (\<lambda>_. Returns)\<rparr>)]).
       0 < score ''delete dog'' (map_values
       [(''t1'', \<lparr>aid = ''t1'', description = ''delete task '' @ squote ''Buy groceries'', handler = (\<lambda>_. Returns)\<rparr>),
        (''t2'', \<lparr>aid = ''t2'', description = ''delete task '' @ squote ''Walk the dog'', handler = (\<lambda>_. Returns)\<rparr>)] ! j))
 \<and> (\<exists>i<length (map_values
       [(''t1'', \<lparr>aid = ''t1'', description = ''delete task '' @ squote ''Buy groceries'', handler = (\<lambda>_. Returns)\<rparr>),
        (''t2'', \<lparr>aid = ''t2'', description = ''delete task '' @ squote ''Walk the dog'', handler = (\<lambda>_. Returns)\<rparr>)]).
       calls (findAndExecuteAction ''delete dog''
         [(''t1'', \<lparr>aid = ''t1'', description = ''delete task '' @ squote ''Buy groceries'', handler = (\<lambda>_. Returns)\<rparr>),
          (''t2'', \<lparr>aid = ''t2'', description = ''delete task '' @ squote ''Walk the dog'', handler = (\<lambda>_. Returns)\<rparr>)]
         \<lparr>query = ''delete dog'', status = []\<rparr>)
       = [(aid (map_values
         [(''t1'', \<lparr>aid = ''t1'', description = ''delete task '' @ squote ''Buy groceries'', handler = (\<lambda>_. Returns)\<rparr>),
          (''t2'', \<lparr>aid = ''t2'', description = ''delete task '' @ squote ''Walk the dog'', handler = (\<lambda>_. Returns)\<rparr>)] ! i), [])]
     \<and> query (state (findAndExecuteAction ''delete dog''
         [(''t1'', \<lparr>aid = ''t1'', description = ''delete task '' @ squote ''Buy groceries'', handler = (\<lambda>_. Returns)\<rparr>),
          (''t2'', \<lparr>aid = ''t2'', description = ''delete task '' @ squote ''Walk the dog'', handler = (\<lambda>_. Returns)\<rparr>)]
         \<lparr>query = ''delete dog'', status = []\<rparr>)) = [])"
proof -
  let ?A = "[(''t1'', \<lparr>aid = ''t1'', description = ''delete task '' @ squote ''Buy groceries'', handler = (\<lambda>_. Returns)\<rparr>),
             (''t2'', \<lparr>aid = ''t2'', description = ''delete task '' @ squote ''Walk the dog'', handler = (\<lambda>_. Returns)\<rparr>)]"
  let ?S = "\<lparr>query = ''delete dog'', status = []\<rparr>"
  have h: "''delete dog'' \<noteq> [] \<and> trim ''delete dog'' = ''delete dog''"
    by (simp add: text_eval)
  have nz: "\<exists>j<length (map_values ?A). 0 < score ''delete dog'' (map_values ?A ! j)"
    by (rule exI [of _ 0]) (simp add: text_eval)
  have ret: "\<forall>i<length (map_values ?A). handler (map_values ?A ! i) [] = Returns"
    by (simp add: map_values_def less_Suc_eq)
  from C2_local_scoring [of "''delete dog''" ?A ?S "\<lambda>_. Returns" "''t1''" "''t2''" "\<lambda>_. Returns"]
    h nz
  obtain i where i: "i < length (map_values ?A)"
    "handler (map_values ?A ! i) [] = Returns \<longrightarrow>
       findAndExecuteAction ''delete dog'' ?A ?S
       = \<lparr>state = ?S\<lparr>status := executing_text (description (map_values ?A ! i)), query := []\<rparr>,
          calls = [(aid (map_values ?A ! i), [])], uncaught = None\<rparr>"
    and tok: "[] \<notin> set (split_whitespace (toLowerCase ''delete dog''))"
    by blast
  from i ret have "findAndExecuteAction ''delete dog'' ?A ?S
       = \<lparr>state = ?S\<lparr>status := executing_text (description (map_values ?A ! i)), query := []\<rparr>,
          calls = [(aid (map_values ?A ! i), [])], uncaught = None\<rparr>"
    by blast
  then have "calls (findAndExecuteAction ''delete dog'' ?A ?S) = [(aid (map_values ?A ! i), [])]
      \<and> query (state (findAndExecuteAction ''delete dog'' ?A ?S)) = []"
    by simp
  with h nz tok i(1) show ?thesis by blast
qed

text \<open>
  C2 as the specification words it (\<open>xyz123\<close> matches nothing in any action set) fails on an action
  whose description holds that text: scoring is by substring of the lower-cased description.
\<close>

theorem C2_counterexample:
  "findAndExecuteAction ''xyz123''
      [(''job'', \<lparr>aid = ''job'', description = ''Run job XYZ123'', handler = (\<lambda>_. Returns)\<rparr>)]
      \<lparr>query = ''xyz123'', status = []\<rparr>
   = \<lparr>state = \<lparr>query = [], status = executing_text ''Run job XYZ123''\<rparr>,
      calls = [(''job'', [])], uncaught = None\<rparr>"
  by (simp add: findAndExecuteAction_def Let_def text_eval)

section \<open>Properties of the remote strategy\<close>

lemma member_not_null: "v \<noteq> JNull \<Longrightarrow> \<exists>r. member v k = Inr r"
  by (cases v) auto

lemma index0_not_null: "v \<noteq> JNull \<Longrightarrow> \<exists>r. index0 v = Inr r"
  by (cases v) auto

lemma truthyJ_not_null: "truthyJ x \<Longrightarrow> the x \<noteq> JNull"
  by (cases x rule: truthyJ.cases) auto

lemma firstChoiceContent_not_null:
  assumes nn: "data \<noteq> JNull"
  shows "\<exists>r. firstChoiceContent data = Inr r \<and> (r \<noteq> None \<longrightarrow> truthyJ r)"
proof -
  obtain ch where ch: "member data ''choices'' = Inr ch"
    using member_not_null [OF nn] by blast
  show ?thesis
  proof (cases "truthyJ ch")
    case False
    with ch show ?thesis by (simp add: firstChoiceContent_def)
  next
    case tch: True
    obtain c0 where c0: "index0 (the ch) = Inr c0"
      using index0_not_null [OF truthyJ_not_null [OF tch]] by blast
    show ?thesis
    proof (cases "truthyJ c0")
      case False
      with ch tch c0 show ?thesis by (simp add: firstChoiceContent_def)
    next
      case tc0: True
      obtain m where m: "member (the c0) ''message'' = Inr m"
        using member_not_null [OF truthyJ_not_null [OF tc0]] by blast
      show ?thesis
      proof (cases "truthyJ m")
        case False
        with ch tch c0 tc0 m show ?thesis by (simp add: firstChoiceContent_def)
      next
        case tm: True
        obtain c where c: "member (the m) ''content'' = Inr c"
          using member_not_null [OF truthyJ_not_null [OF tm]] by blast
        from ch tch c0 tc0 m tm c show ?thesis
          by (simp add: firstChoiceContent_def)
      qed
    qed
  qed
qed

lemma firstChoiceContent_throws: "(\<exists>e. firstChoiceContent data = Inl e) = (data = JNull)"
proof (cases "data = JNull")
  case True
  then show ?thesis by (simp add: firstChoiceContent_def)
next
  case False
  with firstChoiceContent_not_null [OF False] show ?thesis by auto
qed

lemma extractAction_throws:
  "(\<exists>e. extractAction lib data = Inl e)
   = (data = JNull \<or> (\<exists>c. firstChoiceContent data = Inr (Some c) \<and> (\<forall>s. c \<noteq> JStr s)))"
proof (cases "firstChoiceContent data")
  case (Inl e)
  then have "data = JNull" using firstChoiceContent_throws [of data] by auto
  with Inl show ?thesis by (simp add: extractAction_def)
next
  case (Inr c)
  then have nn: "data \<noteq> JNull" using firstChoiceContent_throws [of data] by auto
  show ?thesis
  proof (cases c)
    case None
    with Inr nn show ?thesis by (simp add: extractAction_def)
  next
    case (Some v)
    with Inr nn show ?thesis
      by (cases v) (simp_all add: extractAction_def split: option.splits sum.splits)
  qed
qed

lemma resolveAction_none:
  "resolveAction lib ctx (JStr ''none'') p st
   = \<lparr>state = st\<lparr>query := [], status := noSuitable_text, loading := False\<rparr>, calls = [], uncaught = None\<rparr>"
  by (simp add: resolveAction_def Let_def)

lemma resolveAction_invalid:
  "a \<noteq> JStr ''none'' \<Longrightarrow>
   \<not> truthyJ (Some a) \<or> objectGet (ctx_actionRegistry ctx) (jsonToString a) = Missing \<Longrightarrow>
   resolveAction lib ctx a p st
   = \<lparr>state = st\<lparr>query := [], status := invalidId_text, loading := False\<rparr>, calls = [], uncaught = None\<rparr>"
  by (auto simp: resolveAction_def Let_def)

lemma sendQueryToLLM_success:
  "trim q \<noteq> [] \<Longrightarrow> extractAction lib data = Inr (a, p) \<Longrightarrow>
   sendQueryToLLM lib q (Some ctx) (Response True statusText (Body data)) st
   = resolveAction lib ctx a p (st\<lparr>loading := True, status := ''Thinking...''\<rparr>)"
  by (simp add: sendQueryToLLM_def Let_def)

lemma resolveAction_spread_error:
  "truthyJ (Some a) \<Longrightarrow> a \<noteq> JStr ''none'' \<Longrightarrow>
   objectGet (ctx_actionRegistry ctx) (jsonToString a) \<noteq> Missing \<Longrightarrow>
   spreadArgs p = Inl e \<Longrightarrow>
   resolveAction lib ctx a p st
   = \<lparr>state = st\<lparr>query := [], status := ''Action execution error: '' @ e, loading := False\<rparr>,
      calls = [], uncaught = None\<rparr>"
  by (simp add: resolveAction_def Let_def)

lemma resolveAction_own:
  "truthyJ (Some a) \<Longrightarrow> a \<noteq> JStr ''none'' \<Longrightarrow>
   objectGet (ctx_actionRegistry ctx) (jsonToString a) = Own entry \<Longrightarrow>
   spreadArgs p = Inr args \<Longrightarrow>
   resolveAction lib ctx a p st
   = (case execute entry args of
        Returns \<Rightarrow>
          \<lparr>state = st\<lparr>query := [], status := executingAction_text lib a p, loading := False\<rparr>,
           calls = [(jsonToString a, args)], uncaught = None\<rparr>
      | Throws e \<Rightarrow>
          \<lparr>state = st\<lparr>query := [], status := ''Action execution error: '' @ e, loading := False\<rparr>,
           calls = [(jsonToString a, args)], uncaught = None\<rparr>)"
  by (simp add: resolveAction_def Let_def split: outcome.splits)

lemma resolveAction_inherited:
  "truthyJ (Some a) \<Longrightarrow> a \<noteq> JStr ''none'' \<Longrightarrow>
   objectGet (ctx_actionRegistry ctx) (jsonToString a) = Inherited \<Longrightarrow>
   spreadArgs p = Inr args \<Longrightarrow>
   resolveAction lib ctx a p st
   = \<lparr>state = st\<lparr>query := [], status := ''Action execution error: '' @ executeNotAFunction,
                  loading := False\<rparr>,
      calls = [], uncaught = None\<rparr>"
  by (simp add: resolveAction_def Let_def)

lemma resolveAction_clears:
  "query (state (resolveAction lib ctx a p st)) = []
 \<and> loading (state (resolveAction lib ctx a p st)) = False"
proof (cases "truthyJ (Some a) \<and> a \<noteq> JStr ''none''
    \<and> objectGet (ctx_actionRegistry ctx) (jsonToString a) \<noteq> Missing")
  case False
  then show ?thesis
    using resolveAction_none [of lib ctx p st] resolveAction_invalid [of a ctx lib p st]
    by (cases "a = JStr ''none''") auto
next
  case True
  show ?thesis
  proof (cases "spreadArgs p")
    case (Inl e)
    with True show ?thesis by (simp add: resolveAction_spread_error)
  next
    case (Inr args)
    show ?thesis
    proof (cases "objectGet (ctx_actionRegistry ctx) (jsonToString a)")
      case (Own entry)
      with True Inr show ?thesis
        by (cases "execute entry args") (simp_all add: resolveAction_own)
    next
      case Inherited
      with True Inr show ?thesis by (simp add: resolveAction_inherited)
    next
      case Missing
      with True show ?thesis by simp
    qed
  qed
qed

lemma sendQueryToLLM_loading:
  assumes "trim q \<noteq> []"
  shows "loading (state (sendQueryToLLM lib q (Some ctx) response st)) = False"
proof (cases response)
  case (FetchRejected err)
  with assms show ?thesis by (simp add: sendQueryToLLM_def Let_def)
next
  case (Response ok statusText b)
  show ?thesis
  proof (cases ok)
    case False
    with assms Response show ?thesis by (simp add: sendQueryToLLM_def Let_def)
  next
    case True
    show ?thesis
    proof (cases b)
      case (BodyRejected err)
      with assms Response True show ?thesis by (simp add: sendQueryToLLM_def Let_def)
    next
      case (Body data)
      show ?thesis
      proof (cases "extractAction lib data")
        case (Inl err)
        with assms Response True Body show ?thesis by (simp add: sendQueryToLLM_def Let_def)
      next
        case (Inr ap)
        obtain a p where "ap = (a, p)" by (cases ap)
        with assms Response True Body Inr show ?thesis
          by (simp add: sendQueryToLLM_success resolveAction_clears)
      qed
    qed
  qed
qed

lemma sendQueryToLLM_extraction_throws:
  "trim q \<noteq> [] \<Longrightarrow> extractAction lib data = Inl err \<Longrightarrow>
   sendQueryToLLM lib q (Some ctx) (Response True statusText (Body data)) st
   = \<lparr>state = st\<lparr>loading := False, status := ''Error: '' @ err\<rparr>, calls = [], uncaught = None\<rparr>"
  by (simp add: sendQueryToLLM_def Let_def)

text \<open>What the extraction gives for a content that is a string, and the example of an
  answer naming \<open>action_3\<close> with the one parameter \<open>hello\<close>.\<close>

lemma extractAction_fallback:
  "firstChoiceContent data = Inr (Some (JStr s)) \<Longrightarrow> parse lib (trim s) = None \<Longrightarrow>
   extractAction lib data = Inr (JStr (stripQuotes s), JArr [])"
  by (simp add: extractAction_def)

lemma extractAction_parsed_object:
  "firstChoiceContent data = Inr (Some (JStr s)) \<Longrightarrow> parse lib (trim s) = Some (JObj es) \<Longrightarrow>
   extractAction lib data =
     Inr (if truthyJ (map_get es ''actionId'') then the (map_get es ''actionId'') else JStr [],
          if truthyJ (map_get es ''parameters'') then the (map_get es ''parameters'') else JArr [])"
  by (simp add: extractAction_def)

lemma content_of_first_choice:
  "s \<noteq> [] \<Longrightarrow>
   firstChoiceContent (JObj [(''choices'', JArr [JObj [(''message'', JObj [(''content'', JStr s)])]])])
   = Inr (Some (JStr s))"
  by (simp add: firstChoiceContent_def)

lemma remote_example_action_3:
  assumes q: "trim q \<noteq> []"
    and s: "s \<noteq> []"
    and p: "parse lib (trim s)
        = Some (JObj [(''actionId'', JStr ''action_3''), (''parameters'', JArr [JStr ''hello''])])"
    and r: "map_get (ctx_actionRegistry ctx) ''action_3'' = Some entry"
    and e: "execute entry [JStr ''hello''] = Returns"
  shows "sendQueryToLLM lib q (Some ctx)
      (Response True statusText
        (Body (JObj [(''choices'', JArr [JObj [(''message'', JObj [(''content'', JStr s)])]])]))) st
    = \<lparr>state = st\<lparr>query := [],
           status := executingAction_text lib (JStr ''action_3'') (JArr [JStr ''hello'']),
           loading := False\<rparr>,
       calls = [(''action_3'', [JStr ''hello''])], uncaught = None\<rparr>"
proof -
  let ?data = "JObj [(''choices'', JArr [JObj [(''message'', JObj [(''content'', JStr s)])]])]"
  have x: "extractAction lib ?data = Inr (JStr ''action_3'', JArr [JStr ''hello''])"
    using extractAction_parsed_object [OF content_of_first_choice [OF s] p] by simp
  have o: "objectGet (ctx_actionRegistry ctx) (jsonToString (JStr ''action_3'')) = Own entry"
    using r by (simp add: objectGet_def)
  have "resolveAction lib ctx (JStr ''action_3'') (JArr [JStr ''hello''])
          (st\<lparr>loading := True, status := ''Thinking...''\<rparr>)
      = \<lparr>state = st\<lparr>query := [],
           status := executingAction_text lib (JStr ''action_3'') (JArr [JStr ''hello'']),
           loading := False\<rparr>,
       calls = [(''action_3'', [JStr ''hello''])], uncaught = None\<rparr>"
    using resolveAction_own [of "JStr ''action_3''" ctx entry "JArr [JStr ''hello'']" "[JStr ''hello'']" lib
        "st\<lparr>loading := True, status := ''Thinking...''\<rparr>"] o e
    by simp
  with sendQueryToLLM_success [OF q x, of ctx statusText st] show ?thesis by simp
qed

text \<open>
  C1, at an answer that names a member every object inherits. The content \<open>constructor\<close>
  is no JSON, so the fallback takes it as the action id. No action of the registry has that
  id, yet \<open>context.actionRegistry["constructor"]\<close> is the inherited constructor function,
  which is truthy: the bar reports the execution of an action, the call of its missing
  \<open>execute\<close> throws, and the status ends as an execution error. The status for an id that
  is no valid action id is never set.
\<close>

theorem C1_inherited_member_taken_for_action:
  "sendQueryToLLM \<lparr>parse = (\<lambda>s. None), stringify = (\<lambda>v. ''[]'')\<rparr> ''save it''
      (Some \<lparr>ctx_actionRegistry = []\<rparr>)
      (Response True ''OK''
        (Body (JObj [(''choices'', JArr [JObj [(''message'', JObj [(''content'', JStr ''constructor'')])]])])))
      \<lparr>query = ''save it'', status = [], loading = False\<rparr>
   = \<lparr>state = \<lparr>query = [], status = ''Action execution error: '' @ executeNotAFunction,
                 loading = False\<rparr>,
      calls = [], uncaught = None\<rparr>"
  by (simp add: sendQueryToLLM_def Let_def extractAction_def firstChoiceContent_def trim_def isSpace_def
     stripQuotes_def resolveAction_def objectGet_def objectPrototypeMembers_def)

text \<open>
  C10, as the code has it. The run from \<open>let actionId = ""\<close> to \<open>setQuery("")\<close> throws
  exactly when the body is \<open>null\<close> or the first choice's message content is truthy and
  no string. After a successful response whose body was read and for which that run did not
  throw, the query field is cleared and loading is off whatever the resolution then finds: for
  the id \<open>none\<close> no handler is invoked and the status says that no suitable action was
  found; for an id that is empty or names nothing in the registry and nothing the registry
  inherits, no handler is invoked and the status says that no valid action id was returned.
  When that run throws, the outer \<open>catch\<close> reports the error, loading is off and the
  query field is left as it was.
\<close>

theorem C10_query_cleared_when_extraction_returns:
  "((\<exists>e. extractAction lib data = Inl e)
      = (data = JNull \<or> (\<exists>c. firstChoiceContent data = Inr (Some c) \<and> (\<forall>s. c \<noteq> JStr s))))
 \<and> (trim q \<noteq> [] \<longrightarrow>
      (\<forall>a p. extractAction lib data = Inr (a, p) \<longrightarrow>
          query (state (sendQueryToLLM lib q (Some ctx) (Response True statusText (Body data)) st)) = []
        \<and> loading (state (sendQueryToLLM lib q (Some ctx) (Response True statusText (Body data)) st)) = False
        \<and> (a = JStr ''none'' \<longrightarrow>
              calls (sendQueryToLLM lib q (Some ctx) (Response True statusText (Body data)) st) = []
            \<and> status (state (sendQueryToLLM lib q (Some ctx) (Response True statusText (Body data)) st))
                = noSuitable_text)
        \<and> (a \<noteq> JStr ''none''
             \<and> (\<not> truthyJ (Some a) \<or> objectGet (ctx_actionRegistry ctx) (jsonToString a) = Missing) \<longrightarrow>
              calls (sendQueryToLLM lib q (Some ctx) (Response True statusText (Body data)) st) = []
            \<and> status (state (sendQueryToLLM lib q (Some ctx) (Response True statusText (Body data)) st))
                = invalidId_text))
    \<and> (\<forall>e. extractAction lib data = Inl e \<longrightarrow>
          sendQueryToLLM lib q (Some ctx) (Response True statusText (Body data)) st
          = \<lparr>state = st\<lparr>loading := False, status := ''Error: '' @ e\<rparr>, calls = [], uncaught = None\<rparr>))"
proof (intro conjI impI allI)
  show "(\<exists>e. extractAction lib data = Inl e)
      = (data = JNull \<or> (\<exists>c. firstChoiceContent data = Inr (Some c) \<and> (\<forall>s. c \<noteq> JStr s)))"
    by (rule extractAction_throws)
next
  fix a p assume q: "trim q \<noteq> []" and x: "extractAction lib data = Inr (a, p)"
  note s = sendQueryToLLM_success [OF q x, of ctx statusText st]
  show "query (state (sendQueryToLLM lib q (Some ctx) (Response True statusText (Body data)) st)) = []"
    by (simp add: s resolveAction_clears)
  show "loading (state (sendQueryToLLM lib q (Some ctx) (Response True statusText (Body data)) st)) = False"
    by (simp add: s resolveAction_clears)
  {
    assume "a = JStr ''none''"
    then show "calls (sendQueryToLLM lib q (Some ctx) (Response True statusText (Body data)) st) = []"
      and "status (state (sendQueryToLLM lib q (Some ctx) (Response True statusText (Body data)) st))
                = noSuitable_text"
      by (simp_all add: s resolveAction_none)
  }
  {
    assume "a \<noteq> JStr ''none''
             \<and> (\<not> truthyJ (Some a) \<or> objectGet (ctx_actionRegistry ctx) (jsonToString a) = Missing)"
    then have "resolveAction lib ctx a p (st\<lparr>loading := True, status := ''Thinking...''\<rparr>)
       = \<lparr>state = st\<lparr>loading := True, status := ''Thinking...'', query := [],
                     status := invalidId_text, loading := False\<rparr>, calls = [], uncaught = None\<rparr>"
      using resolveAction_invalid [of a ctx lib p] by blast
    then show "calls (sendQueryToLLM lib q (Some ctx) (Response True statusText (Body data)) st) = []"
      and "status (state (sendQueryToLLM lib q (Some ctx) (Response True statusText (Body data)) st))
                = invalidId_text"
      by (simp_all add: s)
  }
next
  fix e assume q: "trim q \<noteq> []" and x: "extractAction lib data = Inl e"
  show "sendQueryToLLM lib q (Some ctx) (Response True statusText (Body data)) st
          = \<lparr>state = st\<lparr>loading := False, status := ''Error: '' @ e\<rparr>, calls = [], uncaught = None\<rparr>"
    by (rule sendQueryToLLM_extraction_throws [OF q x])
qed

lemma extractAction_plain_none: "extractAction \<lparr>parse = (\<lambda>s. None), stringify = (\<lambda>v. [])\<rparr>
         (JObj [(''choices'', JArr [JObj [(''message'', JObj [(''content'', JStr ''none'')])]])])
       = Inr (JStr ''none'', JArr [])"
  by (simp add: extractAction_def firstChoiceContent_def stripQuotes_def trim_def isSpace_def)

theorem C10_witness:
  "trim ''add milk'' \<noteq> []
 \<and> extractAction \<lparr>parse = (\<lambda>s. None), stringify = (\<lambda>v. [])\<rparr>
       (JObj [(''choices'', JArr [JObj [(''message'', JObj [(''content'', JStr ''none'')])]])])
     = Inr (JStr ''none'', JArr [])
 \<and> query (state (sendQueryToLLM \<lparr>parse = (\<lambda>s. None), stringify = (\<lambda>v. [])\<rparr> ''add milk''
       (Some \<lparr>ctx_actionRegistry = []\<rparr>)
       (Response True ''OK''
         (Body (JObj [(''choices'', JArr [JObj [(''message'', JObj [(''content'', JStr ''none'')])]])])))
       \<lparr>query = ''add milk'', status = [], loading = False\<rparr>)) = []
 \<and> calls (sendQueryToLLM \<lparr>parse = (\<lambda>s. None), stringify = (\<lambda>v. [])\<rparr> ''add milk''
       (Some \<lparr>ctx_actionRegistry = []\<rparr>)
       (Response True ''OK''
         (Body (JObj [(''choices'', JArr [JObj [(''message'', JObj [(''content'', JStr ''none'')])]])])))
       \<lparr>query = ''add milk'', status = [], loading = False\<rparr>) = []
 \<and> status (state (sendQueryToLLM \<lparr>parse = (\<lambda>s. None), stringify = (\<lambda>v. [])\<rparr> ''add milk''
       (Some \<lparr>ctx_actionRegistry = []\<rparr>)
       (Response True ''OK''
         (Body (JObj [(''choices'', JArr [JObj [(''message'', JObj [(''content'', JStr ''none'')])]])])))
       \<lparr>query = ''add milk'', status = [], loading = False\<rparr>)) = noSuitable_text"
proof -
  have q: "trim ''add milk'' \<noteq> []"
    by (simp add: trim_def isSpace_def)
  note x = extractAction_plain_none
  from C10_query_cleared_when_extraction_returns
    [of "\<lparr>parse = (\<lambda>s. None), stringify = (\<lambda>v. [])\<rparr>"
        "JObj [(''choices'', JArr [JObj [(''message'', JObj [(''content'', JStr ''none'')])]])]"
        "''add milk''" "\<lparr>ctx_actionRegistry = []\<rparr>" "''OK''"
        "\<lparr>query = ''add milk'', status = [], loading = False\<rparr>"] q x
  show ?thesis by simp
qed

text \<open>
  C10 as the specification words it (the query is cleared after every successful response whose body is
  read) fails on the body \<open>null\<close>: reading \<open>data.choices\<close> throws, the outer \<open>catch\<close>
  reports the error, and the query field keeps its text.
\<close>

theorem C10_counterexample:
  "sendQueryToLLM \<lparr>parse = (\<lambda>s. None), stringify = (\<lambda>v. [])\<rparr> ''add milk''
      (Some \<lparr>ctx_actionRegistry = []\<rparr>) (Response True ''OK'' (Body JNull))
      \<lparr>query = ''add milk'', status = [], loading = False\<rparr>
   = \<lparr>state = \<lparr>query = ''add milk'', status = ''Error: '' @ nullMemberError ''choices'',
                 loading = False\<rparr>,
      calls = [], uncaught = None\<rparr>"
  by (simp add: sendQueryToLLM_def Let_def extractAction_def firstChoiceContent_def trim_def isSpace_def)

section \<open>Properties of the Reindexing Scheduler\<close>

lemma debouncedUpdate_settled:
  assumes "settled s"
  shows "pending (debouncedUpdate s) = [(nextHandle s, now s + 100)]"
    and "updateTimeoutRef (debouncedUpdate s) = Some (nextHandle s)"
    and "passes (debouncedUpdate s) = passes s"
    and "now (debouncedUpdate s) = now s"
    and "nextHandle (debouncedUpdate s) = Suc (nextHandle s)"
  using assms
  by (auto simp: settled_def debouncedUpdate_def setTimeout_def clearTimeout_def Let_def
      split: option.splits)

lemma debouncedUpdate_keeps_settled: "settled s \<Longrightarrow> settled (debouncedUpdate s)"
  using debouncedUpdate_settled [of s] by (simp add: settled_def)

lemma advance_settled:
  assumes "settled s"
  shows "settled (advance t s)"
proof (cases "pending s = []")
  case True
  with assms show ?thesis by (simp add: settled_def advance_def split: option.splits)
next
  case False
  with assms obtain h due where p: "pending s = [(h, due)]" "updateTimeoutRef s = Some h"
    "0 < h" "now s < due"
    by (auto simp: settled_def)
  show ?thesis
  proof (cases "due \<le> t")
    case True
    with assms p show ?thesis by (simp add: settled_def advance_def split: option.splits)
  next
    case False
    with assms p show ?thesis by (simp add: settled_def advance_def split: option.splits)
  qed
qed

lemma advance_before_due:
  "pending s = [(h, due)] \<Longrightarrow> t < due \<Longrightarrow>
   pending (advance t s) = [(h, due)] \<and> passes (advance t s) = passes s"
  by (simp add: advance_def)

lemma advance_after_due:
  "pending s = [(h, due)] \<Longrightarrow> due \<le> t \<Longrightarrow>
   pending (advance t s) = [] \<and> passes (advance t s) = passes s @ [due]"
  by (simp add: advance_def)

lemma advance_idle: "pending s = [] \<Longrightarrow> pending (advance t s) = [] \<and> passes (advance t s) = passes s"
  by (simp add: advance_def)

lemma advance_now: "now (advance t s) = max (now s) t"
  by (simp add: advance_def)

lemma observerCallback_settled: "settled s \<Longrightarrow> settled (observerCallback ms s)"
  by (simp add: observerCallback_def debouncedUpdate_keeps_settled)

lemma runCallbacks_settled: "settled s \<Longrightarrow> settled (runCallbacks es s)"
  by (induction es arbitrary: s) (auto simp: observerCallback_settled advance_settled)

lemma settled_at_most_one: "settled s \<Longrightarrow> length (pending s) \<le> 1"
  by (auto simp: settled_def)

lemma burst_rest:
  assumes "settled s" and "pending s = [(h, t + 100)]" and "now s = t" and "burst t es"
  shows "\<exists>h'. pending (runCallbacks es s) = [(h', last (t # map fst es) + 100)]
            \<and> now (runCallbacks es s) = last (t # map fst es)
            \<and> passes (runCallbacks es s) = passes s"
  using assms
proof (induction es arbitrary: s h t)
  case Nil
  then show ?case by simp
next
  case (Cons e es)
  obtain t' ms where e: "e = (t', ms)" by (cases e)
  from Cons.prems(4) e have b: "t \<le> t'" "t' < t + 100" "shouldUpdate ms" "burst t' es"
    by simp_all
  let ?a = "advance t' s"
  have a_set: "settled ?a" using Cons.prems(1) by (rule advance_settled)
  have a_pp: "pending ?a = [(h, t + 100)]" "passes ?a = passes s"
    using advance_before_due [OF Cons.prems(2) b(2)] by simp_all
  have a_now: "now ?a = t'" using Cons.prems(3) b(1) by (simp add: advance_now)
  let ?d = "observerCallback ms ?a"
  have d_eq: "?d = debouncedUpdate ?a" using b(3) by (simp add: observerCallback_def)
  have d_set: "settled ?d" using a_set by (rule observerCallback_settled)
  have d_p: "pending ?d = [(nextHandle ?a, t' + 100)]"
    using debouncedUpdate_settled(1) [OF a_set] a_now d_eq by simp
  have d_now: "now ?d = t'" using debouncedUpdate_settled(4) [OF a_set] a_now d_eq by simp
  have d_pass: "passes ?d = passes s" using debouncedUpdate_settled(3) [OF a_set] a_pp d_eq by simp
  from Cons.IH [OF d_set d_p d_now b(4)] d_pass e show ?case by simp
qed

lemma burst_first:
  assumes "settled s" and "pending s = []" and "now s \<le> t" and "shouldUpdate ms" and "burst t es"
  shows "\<exists>h'. pending (runCallbacks ((t, ms) # es) s) = [(h', last (t # map fst es) + 100)]
            \<and> now (runCallbacks ((t, ms) # es) s) = last (t # map fst es)
            \<and> passes (runCallbacks ((t, ms) # es) s) = passes s"
proof -
  let ?a = "advance t s"
  have a_set: "settled ?a" using assms(1) by (rule advance_settled)
  have a_pp: "pending ?a = []" "passes ?a = passes s" using advance_idle [OF assms(2)] by simp_all
  have a_now: "now ?a = t" using assms(3) by (simp add: advance_now)
  let ?d = "observerCallback ms ?a"
  have d_eq: "?d = debouncedUpdate ?a" using assms(4) by (simp add: observerCallback_def)
  have d_set: "settled ?d" using a_set by (rule observerCallback_settled)
  have d_p: "pending ?d = [(nextHandle ?a, t + 100)]"
    using debouncedUpdate_settled(1) [OF a_set] a_now d_eq by simp
  have d_now: "now ?d = t" using debouncedUpdate_settled(4) [OF a_set] a_now d_eq by simp
  have d_pass: "passes ?d = passes s" using debouncedUpdate_settled(3) [OF a_set] a_pp d_eq by simp
  from burst_rest [OF d_set d_p d_now assms(5)] d_pass show ?thesis by simp
qed

lemma teardown_cancels: "settled s \<Longrightarrow> pending (teardown s) = [] \<and> settled (teardown s)"
  by (auto simp: settled_def teardown_def clearTimeout_def split: option.splits)

text \<open>
  C8. The scheduler is followed from a state it can be in through callbacks of the observer
  and the passing of time, with no teardown in between. In such a state, \<open>debouncedUpdate\<close> leaves exactly one pending
  timer, the new one, due 100 ms from now; whatever callbacks come at whatever times, no more
  than one timer is ever pending. When no timer is pending and a burst of callbacks comes,
  each with a qualifying mutation and each less than 100 ms after the one before, no pass
  runs before 100 ms after the last of them, and from then on exactly one pass has run, at
  100 ms after the last mutation of the burst.
\<close>

theorem C8_debounce_coalesces:
  "settled s \<longrightarrow>
     pending (debouncedUpdate s) = [(nextHandle s, now s + 100)]
   \<and> updateTimeoutRef (debouncedUpdate s) = Some (nextHandle s)
   \<and> (\<forall>cs T. length (pending (runCallbacks cs s)) \<le> 1
            \<and> length (pending (advance T (runCallbacks cs s))) \<le> 1)
   \<and> (pending s = [] \<and> now s \<le> t \<and> shouldUpdate ms \<and> burst t es \<longrightarrow>
         (\<forall>T. T < last (t # map fst es) + 100 \<longrightarrow>
              passes (advance T (runCallbacks ((t, ms) # es) s)) = passes s)
       \<and> (\<forall>T. last (t # map fst es) + 100 \<le> T \<longrightarrow>
              passes (advance T (runCallbacks ((t, ms) # es) s))
                = passes s @ [last (t # map fst es) + 100]
            \<and> pending (advance T (runCallbacks ((t, ms) # es) s)) = []))"
proof (intro impI conjI allI)
  assume s: "settled s"
  show "pending (debouncedUpdate s) = [(nextHandle s, now s + 100)]"
    by (rule debouncedUpdate_settled(1) [OF s])
  show "updateTimeoutRef (debouncedUpdate s) = Some (nextHandle s)"
    by (rule debouncedUpdate_settled(2) [OF s])
  show "length (pending (runCallbacks cs s)) \<le> 1" for cs
    by (rule settled_at_most_one [OF runCallbacks_settled [OF s]])
  show "length (pending (advance T (runCallbacks cs s))) \<le> 1" for cs T
    by (rule settled_at_most_one [OF advance_settled [OF runCallbacks_settled [OF s]]])
next
  fix T
  assume s: "settled s"
    and b: "pending s = [] \<and> now s \<le> t \<and> shouldUpdate ms \<and> burst t es"
    and T: "T < last (t # map fst es) + 100"
  from burst_first [of s t ms es] s b obtain h' where
    r: "pending (runCallbacks ((t, ms) # es) s) = [(h', last (t # map fst es) + 100)]"
       "passes (runCallbacks ((t, ms) # es) s) = passes s"
    by blast
  from advance_before_due [OF r(1) T] r(2)
  show "passes (advance T (runCallbacks ((t, ms) # es) s)) = passes s" by simp
next
  fix T
  assume s: "settled s"
    and b: "pending s = [] \<and> now s \<le> t \<and> shouldUpdate ms \<and> burst t es"
    and T: "last (t # map fst es) + 100 \<le> T"
  from burst_first [of s t ms es] s b obtain h' where
    r: "pending (runCallbacks ((t, ms) # es) s) = [(h', last (t # map fst es) + 100)]"
       "passes (runCallbacks ((t, ms) # es) s) = passes s"
    by blast
  from advance_after_due [OF r(1) T] r(2)
  show "passes (advance T (runCallbacks ((t, ms) # es) s)) = passes s @ [last (t # map fst es) + 100]"
    and "pending (advance T (runCallbacks ((t, ms) # es) s)) = []"
    by simp_all
qed

theorem C8_witness:
  "settled \<lparr>updateTimeoutRef = None, pending = [], nextHandle = 1, now = 0, passes = []\<rparr>
 \<and> burst 10 [(50, [\<lparr>mtype = Attributes, tagName = ''INPUT''\<rparr>]),
              (120, [\<lparr>mtype = CharacterData, tagName = ''SPAN''\<rparr>, \<lparr>mtype = ChildList, tagName = ''UL''\<rparr>])]
 \<and> passes (advance 219 (runCallbacks
       [(10, [\<lparr>mtype = ChildList, tagName = ''DIV''\<rparr>]),
        (50, [\<lparr>mtype = Attributes, tagName = ''INPUT''\<rparr>]),
        (120, [\<lparr>mtype = CharacterData, tagName = ''SPAN''\<rparr>, \<lparr>mtype = ChildList, tagName = ''UL''\<rparr>])]
       \<lparr>updateTimeoutRef = None, pending = [], nextHandle = 1, now = 0, passes = []\<rparr>)) = []
 \<and> passes (advance 220 (runCallbacks
       [(10, [\<lparr>mtype = ChildList, tagName = ''DIV''\<rparr>]),
        (50, [\<lparr>mtype = Attributes, tagName = ''INPUT''\<rparr>]),
        (120, [\<lparr>mtype = CharacterData, tagName = ''SPAN''\<rparr>, \<lparr>mtype = ChildList, tagName = ''UL''\<rparr>])]
       \<lparr>updateTimeoutRef = None, pending = [], nextHandle = 1, now = 0, passes = []\<rparr>)) = [220]"
proof -
  let ?s = "\<lparr>updateTimeoutRef = None, pending = [], nextHandle = 1, now = 0, passes = []\<rparr>"
  let ?es = "[(50, [\<lparr>mtype = Attributes, tagName = ''INPUT''\<rparr>]),
              (120, [\<lparr>mtype = CharacterData, tagName = ''SPAN''\<rparr>, \<lparr>mtype = ChildList, tagName = ''UL''\<rparr>])]"
  have s: "settled ?s" by (simp add: settled_def)
  have b: "burst 10 ?es" by simp
  have h: "pending ?s = [] \<and> now ?s \<le> 10 \<and> shouldUpdate [\<lparr>mtype = ChildList, tagName = ''DIV''\<rparr>]
            \<and> burst 10 ?es"
    by simp
  from C8_debounce_coalesces [of ?s 10 "[\<lparr>mtype = ChildList, tagName = ''DIV''\<rparr>]" ?es] s h
  show ?thesis by simp
qed

end
